theory Spec2Isabelle
  imports Main "HOL-Library.Sublist" "HOL-Library.Multiset" "HOL-Library.List_Lexorder"
    "HOL-Library.Char_ord"
begin

section \<open>The file state store (FilesStore)\<close>

subsection \<open>Data model\<close>

text \<open>
  A JavaScript string is modelled as a \<open>string\<close>; a \<open>Uint8Array\<close> as a list of
  byte values. The entry stored under a path is the object
  \<^verbatim>\<open>{ type: 'file' | 'folder'; content?: string; isBinary?: boolean }\<close>;
  an optional field that is not set is \<open>None\<close>.
\<close>

type_synonym bytes = "nat list"

datatype dirent_type = File | Folder

record Dirent =
  type :: dirent_type
  content :: "string option"
  isBinary :: "bool option"

text \<open>
  \<open>FileMap\<close> is the value held by the \<open>files\<close> map store. The store's
  \<open>setKey(key, undefined)\<close> deletes the key, so a path is absent exactly when the
  map is \<open>None\<close> there. The order in which the keys of the object are enumerated is
  not part of this model.
\<close>

type_synonym FileMap = "string \<rightharpoonup> Dirent"

record FilesStore =
  files :: FileMap
  lockedFiles :: "string \<rightharpoonup> bool"
  filesCount :: int
  modifiedFiles :: "string \<rightharpoonup> string"

text \<open>The constructor: three empty maps and \<open>#size = 0\<close>.\<close>

definition newFilesStore :: FilesStore where
  "newFilesStore =
     \<lparr>files = Map.empty, lockedFiles = Map.empty, filesCount = 0, modifiedFiles = Map.empty\<rparr>"

datatype event_type = add_dir | remove_dir | add_file | change | remove_file | update_directory

record PathWatcherEvent =
  ev_type :: event_type
  path :: string
  buffer :: "bytes option"

subsection \<open>External collaborators\<close>

text \<open>
  \<open>getEncoding\<close> (package istextorbinary), the strict \<open>TextDecoder\<close> and
  \<open>path.relative\<close> are not code of the store; they are parameters of the model.
  \<open>getEncoding\<close> answers \<open>utf8\<close>, \<open>binary\<close> or null; the decoder returns the
  text or throws.
\<close>

datatype encoding = utf8 | binary

datatype error = TypeError | Rejected string

record Platform =
  getEncoding :: "bytes \<Rightarrow> encoding option"
  decode :: "bytes \<Rightarrow> error + string"
  relative :: "string \<Rightarrow> string \<Rightarrow> string"

text \<open>
  The sandbox: its working directory and \<open>fs.writeFile\<close>, which resolves
  (\<open>None\<close>) or rejects with an error. The promise \<open>#webcontainer\<close> itself
  either resolves to a sandbox or rejects.
\<close>

record WebContainer =
  workdir :: string
  writeFile :: "string \<Rightarrow> string \<Rightarrow> error option"

subsection \<open>String helpers\<close>

text \<open>\<open>s.startsWith(search)\<close>.\<close>

definition startsWith :: "string \<Rightarrow> string \<Rightarrow> bool" where
  "startsWith s search = prefix search s"

text \<open>\<open>path.replace(/\/+$/g, '')\<close>: the trailing slashes are removed.\<close>

definition sanitize :: "string \<Rightarrow> string" where
  "sanitize p = rev (dropWhile (\<lambda>c. c = CHR ''/'') (rev p))"

subsection \<open>Queries\<close>

definition getFile :: "FilesStore \<Rightarrow> string \<Rightarrow> string option" where
  "getFile this filePath =
     (case files this filePath of
        None \<Rightarrow> None
      | Some dirent \<Rightarrow> if type dirent \<noteq> File then None else content dirent)"

text \<open>\<open>getFileModifications\<close>: the keys of \<open>#modifiedFiles\<close>, each mapped to true.\<close>

definition getFileModifications :: "FilesStore \<Rightarrow> (string \<rightharpoonup> bool)" where
  "getFileModifications this =
     (\<lambda>f. if f \<in> dom (modifiedFiles this) then Some True else None)"

definition resetFileModifications :: "FilesStore \<Rightarrow> FilesStore" where
  "resetFileModifications this = this\<lparr>modifiedFiles := Map.empty\<rparr>"

subsection \<open>Change events\<close>

definition isBinaryFile :: "Platform \<Rightarrow> bytes option \<Rightarrow> bool" where
  "isBinaryFile pf buf =
     (case buf of
        None \<Rightarrow> False
      | Some b \<Rightarrow> getEncoding pf b = Some binary)"

text \<open>
  \<open>#decodeFileContent\<close>: an absent or empty buffer is the empty string; an exception
  of the decoder is caught and the empty string returned.
\<close>

definition decodeFileContent :: "Platform \<Rightarrow> bytes option \<Rightarrow> string" where
  "decodeFileContent pf buf =
     (case buf of
        None \<Rightarrow> []
      | Some b \<Rightarrow>
          if length b = 0 then []
          else (case decode pf b of Inr text \<Rightarrow> text | Inl err \<Rightarrow> []))"

text \<open>The entry written by an \<open>add_file\<close> or \<open>change\<close> event.\<close>

definition fileEntry :: "Platform \<Rightarrow> bytes option \<Rightarrow> Dirent" where
  "fileEntry pf buf =
     (let isBin = isBinaryFile pf buf;
          text = (if \<not> isBin then decodeFileContent pf buf else [])
      in \<lparr>type = File, content = Some text, isBinary = Some isBin\<rparr>)"

text \<open>One iteration of the loop of \<open>#processEventBuffer\<close>.\<close>

definition processEvent :: "Platform \<Rightarrow> FilesStore \<Rightarrow> PathWatcherEvent \<Rightarrow> FilesStore" where
  "processEvent pf this ev =
     (let sanitizedPath = sanitize (path ev) in
      case ev_type ev of
        add_dir \<Rightarrow>
          this\<lparr>files := (files this)(sanitizedPath \<mapsto>
                  \<lparr>type = Folder, content = None, isBinary = None\<rparr>)\<rparr>
      | remove_dir \<Rightarrow>
          this\<lparr>files := (\<lambda>direntPath.
                  if startsWith direntPath sanitizedPath then None
                  else ((files this)(sanitizedPath := None)) direntPath)\<rparr>
      | add_file \<Rightarrow>
          this\<lparr>filesCount := filesCount this + 1,
               files := (files this)(sanitizedPath \<mapsto> fileEntry pf (buffer ev))\<rparr>
      | change \<Rightarrow>
          this\<lparr>files := (files this)(sanitizedPath \<mapsto> fileEntry pf (buffer ev))\<rparr>
      | remove_file \<Rightarrow>
          this\<lparr>filesCount := filesCount this - 1,
               files := (files this)(sanitizedPath := None)\<rparr>
      | update_directory \<Rightarrow> this)"

text \<open>
  \<open>#processEventBuffer\<close>: the batch is an array of one-element tuples, each holding
  an array of events; \<open>events.flat(2)\<close> is their concatenation, processed in order.
\<close>

definition processEventBuffer ::
  "Platform \<Rightarrow> FilesStore \<Rightarrow> PathWatcherEvent list list \<Rightarrow> FilesStore" where
  "processEventBuffer pf this events = foldl (processEvent pf) this (concat events)"

subsection \<open>Saving a file\<close>

text \<open>
  What \<open>saveFile\<close> does besides returning, in the order in which it does it: the
  call of the sandbox, the two local mutations and the log lines.
\<close>

datatype effect =
  FsWriteFile string string
| ModifiedFilesSet string string
| FilesSetKey string Dirent
| LoggerInfo
| LoggerError error

fun isFsWriteFile :: "effect \<Rightarrow> bool" where
  "isFsWriteFile (FsWriteFile p c) = True"
| "isFsWriteFile e = False"

fun isLocalMutation :: "effect \<Rightarrow> bool" where
  "isLocalMutation (ModifiedFilesSet p c) = True"
| "isLocalMutation (FilesSetKey p d) = True"
| "isLocalMutation e = False"

text \<open>
  The result of a call of \<open>saveFile\<close>: the error it throws (if any), the store as
  the call leaves it, and its effects in order.
\<close>

record Outcome =
  thrown :: "error option"
  store :: FilesStore
  trace :: "effect list"

text \<open>
  \<open>saveFile\<close>. The whole body is inside \<open>try\<close>; the handler logs and rethrows.
  \<open>oldContent && ...\<close> holds when the old content is a non-empty string.
\<close>

definition saveFile ::
  "Platform \<Rightarrow> error + WebContainer \<Rightarrow> FilesStore \<Rightarrow> string \<Rightarrow> string \<Rightarrow> Outcome" where
  "saveFile pf webcontainer this filePath newContent =
     (case webcontainer of
        Inl err \<Rightarrow> \<lparr>thrown = Some err, store = this, trace = [LoggerError err]\<rparr>
      | Inr wc \<Rightarrow>
          let relativePath = relative pf (workdir wc) filePath;
              oldContent = getFile this filePath
          in (case writeFile wc relativePath newContent of
               Some err \<Rightarrow>
                 \<lparr>thrown = Some err, store = this,
                  trace = [FsWriteFile relativePath newContent, LoggerError err]\<rparr>
             | None \<Rightarrow>
                 let snapshot =
                       (case oldContent of
                          None \<Rightarrow> None
                        | Some old \<Rightarrow>
                            if old \<noteq> [] \<and> filePath \<notin> dom (modifiedFiles this)
                            then Some old else None);
                     this1 =
                       (case snapshot of
                          None \<Rightarrow> this
                        | Some old \<Rightarrow>
                            this\<lparr>modifiedFiles := (modifiedFiles this)(filePath \<mapsto> old)\<rparr>);
                     entry = \<lparr>type = File, content = Some newContent, isBinary = Some False\<rparr>;
                     this2 = this1\<lparr>files := (files this1)(filePath \<mapsto> entry)\<rparr>
                 in \<lparr>thrown = None, store = this2,
                     trace = [FsWriteFile relativePath newContent]
                       @ (case snapshot of None \<Rightarrow> [] | Some old \<Rightarrow> [ModifiedFilesSet filePath old])
                       @ [FilesSetKey filePath entry, LoggerInfo]\<rparr>))"

subsection \<open>A concrete platform for examples\<close>

text \<open>
  To run the model on examples the parameters need values. This platform calls a buffer
  binary when it holds a zero byte, decodes 7-bit bytes and rejects any other byte, and
  makes a path relative by cutting the working directory off its front.
\<close>

definition examplePlatform :: Platform where
  "examplePlatform =
     \<lparr>getEncoding = (\<lambda>b. if 0 \<in> set b then Some binary else Some utf8),
      decode = (\<lambda>b. if list_all (\<lambda>x. x < 128) b then Inr (map char_of b) else Inl TypeError),
      relative = (\<lambda>from to. if prefix (from @ ''/'') to then drop (length from + 1) to else to)\<rparr>"

text \<open>A sandbox whose writes succeed, and one whose writes are rejected.\<close>

definition goodContainer :: WebContainer where
  "goodContainer = \<lparr>workdir = ''/home/project'', writeFile = (\<lambda>p c. None)\<rparr>"

definition badContainer :: WebContainer where
  "badContainer =
     \<lparr>workdir = ''/home/project'', writeFile = (\<lambda>p c. Some (Rejected ''EIO''))\<rparr>"

section \<open>The file tree (FileTree)\<close>

text \<open>
  A node of the flat list the tree is rendered from. \<open>node_id\<close> is the field
  \<open>id\<close>; \<open>kind\<close> is \<open>'file'\<close> or \<open>'folder'\<close>.
\<close>

record Node =
  kind :: dirent_type
  node_id :: nat
  name :: string
  fullPath :: string
  depth :: nat

subsection \<open>The visibility filter\<close>

text \<open>\<open>Number.MAX_SAFE_INTEGER\<close> is \<open>2^53 - 1\<close>.\<close>

definition MAX_SAFE_INTEGER :: nat where
  "MAX_SAFE_INTEGER = 9007199254740991"

text \<open>
  One iteration of the loop of \<open>filteredFileList\<close>, on the pair of \<open>lastDepth\<close> and
  the list built so far: an equal depth resets \<open>lastDepth\<close>, a collapsed folder lowers
  it to its own depth, and the node is pushed unless \<open>lastDepth < depth\<close>.
\<close>

definition filterStep :: "string set \<Rightarrow> nat \<times> Node list \<Rightarrow> Node \<Rightarrow> nat \<times> Node list" where
  "filterStep collapsedFolders st fileOrFolder =
     (let lastDepth = fst st; list = snd st;
          d = depth fileOrFolder;
          lastDepth1 = (if lastDepth = d then MAX_SAFE_INTEGER else lastDepth);
          lastDepth2 = (if fullPath fileOrFolder \<in> collapsedFolders then min lastDepth1 d
                        else lastDepth1)
      in if lastDepth2 < d then (lastDepth2, list)
         else (lastDepth2, list @ [fileOrFolder]))"

definition filteredFileList :: "Node list \<Rightarrow> string set \<Rightarrow> Node list" where
  "filteredFileList fileList collapsedFolders =
     snd (foldl (filterStep collapsedFolders) (MAX_SAFE_INTEGER, []) fileList)"

subsection \<open>Building the node list\<close>

text \<open>
  A hidden-file pattern is a string or a regular expression; of the latter only its
  \<open>test\<close> is used.
\<close>

datatype hidden_pattern = Str string | RegExp "string \<Rightarrow> bool"

text \<open>\<open>s.includes(search)\<close>.\<close>

definition includesStr :: "string \<Rightarrow> string \<Rightarrow> bool" where
  "includesStr s search = sublist search s"

definition isHiddenFile :: "string \<Rightarrow> string \<Rightarrow> hidden_pattern list \<Rightarrow> bool" where
  "isHiddenFile filePath fileName hiddenFiles =
     list_ex (\<lambda>pathOrRegex.
        case pathOrRegex of
          Str s \<Rightarrow> includesStr filePath s \<or> includesStr fileName s
        | RegExp test \<Rightarrow> test filePath \<or> test fileName) hiddenFiles"

text \<open>
  \<open>s.split(sep)\<close> for a separator of one character: the empty string gives one empty
  segment, and every separator starts a new segment.
\<close>

fun split :: "char \<Rightarrow> string \<Rightarrow> string list" where
  "split sep [] = [[]]"
| "split sep (c # cs) =
     (if c = sep then [] # split sep cs
      else (case split sep cs of
              [] \<Rightarrow> [[c]]
            | w # ws \<Rightarrow> (c # w) # ws))"

text \<open>\<open>dirent?.type === 'file'\<close>.\<close>

definition isFileDirent :: "Dirent option \<Rightarrow> bool" where
  "isFileDirent dirent = (case dirent of None \<Rightarrow> False | Some d \<Rightarrow> type d = File)"

text \<open>
  The \<open>while\<close> loop over the segments of one path. The list argument holds the
  segments from index \<open>i\<close> on, so \<open>i === segments.length - 1\<close> is \<open>rest = []\<close>;
  the state is the set \<open>folderPaths\<close> and the list \<open>fileList\<close>.
\<close>

fun walkSegments ::
  "string \<Rightarrow> bool \<Rightarrow> nat \<Rightarrow> Dirent option \<Rightarrow> string list \<Rightarrow> string \<Rightarrow> nat
     \<Rightarrow> string set \<times> Node list \<Rightarrow> string set \<times> Node list" where
  "walkSegments rootFolder hideRoot defaultDepth dirent [] currentPath d st = st"
| "walkSegments rootFolder hideRoot defaultDepth dirent (nm # rest) currentPath d st =
     (let folderPaths = fst st; fileList = snd st;
          fullPth = currentPath @ ''/'' @ nm
      in if \<not> startsWith fullPth rootFolder \<or> (hideRoot \<and> fullPth = rootFolder)
         then walkSegments rootFolder hideRoot defaultDepth dirent rest fullPth d st
         else
           let nodeDepth = d + (if hideRoot then 0 else defaultDepth) in
           if rest = [] \<and> isFileDirent dirent
           then walkSegments rootFolder hideRoot defaultDepth dirent rest fullPth (d + 1)
                  (folderPaths,
                   fileList @ [\<lparr>kind = File, node_id = length fileList, name = nm,
                                fullPath = fullPth, depth = nodeDepth\<rparr>])
           else if fullPth \<notin> folderPaths
           then walkSegments rootFolder hideRoot defaultDepth dirent rest fullPth (d + 1)
                  (insert fullPth folderPaths,
                   fileList @ [\<lparr>kind = Folder, node_id = length fileList, name = nm,
                                fullPath = fullPth, depth = nodeDepth\<rparr>])
           else walkSegments rootFolder hideRoot defaultDepth dirent rest fullPth (d + 1) st)"

text \<open>The segments of a key of the map: the path is normalized, split and cleaned.\<close>

definition segmentsOf :: "string \<Rightarrow> string list" where
  "segmentsOf filePath =
     (let normalizedPath = (if startsWith filePath ''/'' then filePath else ''/'' @ filePath)
      in filter (\<lambda>segment. segment \<noteq> []) (split CHR ''/'' normalizedPath))"

text \<open>One iteration of the loop over \<open>Object.entries(files)\<close>.\<close>

definition buildEntry ::
  "string \<Rightarrow> bool \<Rightarrow> nat \<Rightarrow> hidden_pattern list \<Rightarrow> string set \<times> Node list
     \<Rightarrow> string \<times> Dirent option \<Rightarrow> string set \<times> Node list" where
  "buildEntry rootFolder hideRoot defaultDepth hiddenFiles st entry =
     (let filePath = fst entry; dirent = snd entry;
          normalizedPath = (if startsWith filePath ''/'' then filePath else ''/'' @ filePath);
          segments = filter (\<lambda>segment. segment \<noteq> []) (split CHR ''/'' normalizedPath)
      in if segments = [] then st
         else if isHiddenFile normalizedPath (last segments) hiddenFiles then st
         else walkSegments rootFolder hideRoot defaultDepth dirent segments [] 0 st)"

text \<open>
  The comparator handed to \<open>sort\<close>. \<open>localeCompare\<close> belongs to the platform and is
  a parameter.
\<close>

definition compareNodes :: "(string \<Rightarrow> string \<Rightarrow> int) \<Rightarrow> Node \<Rightarrow> Node \<Rightarrow> int" where
  "compareNodes localeCompare a b =
     (if kind a \<noteq> kind b then (if kind a = Folder then - 1 else 1)
      else localeCompare (name a) (name b))"

text \<open>
  \<open>Array.prototype.sort\<close> is stable; for a consistent comparator its result is the one
  of any stable sort. It is modelled by insertion from the left, each element going
  behind the elements that do not compare greater.
\<close>

fun insertBy :: "('a \<Rightarrow> 'a \<Rightarrow> int) \<Rightarrow> 'a \<Rightarrow> 'a list \<Rightarrow> 'a list" where
  "insertBy cmp x [] = [x]"
| "insertBy cmp x (y # ys) = (if cmp x y < 0 then x # y # ys else y # insertBy cmp x ys)"

definition sortBy :: "('a \<Rightarrow> 'a \<Rightarrow> int) \<Rightarrow> 'a list \<Rightarrow> 'a list" where
  "sortBy cmp xs = foldl (\<lambda>sorted x. insertBy cmp x sorted) [] xs"

text \<open>
  \<open>buildFileList\<close>, on the entries of the map in enumeration order. \<open>rootFolder\<close>
  has the default \<open>'/'\<close>, which a caller of this model passes itself.
\<close>

definition buildFileList ::
  "(string \<Rightarrow> string \<Rightarrow> int) \<Rightarrow> (string \<times> Dirent option) list \<Rightarrow> string \<Rightarrow> bool
     \<Rightarrow> hidden_pattern list \<Rightarrow> Node list" where
  "buildFileList localeCompare entries rootFolder hideRoot hiddenFiles =
     (let withRoot = (rootFolder = ''/'' \<and> \<not> hideRoot);
          defaultDepth = (if withRoot then 1 else 0);
          fileList0 = (if withRoot
                       then [\<lparr>kind = Folder, node_id = 0, name = ''/'', fullPath = ''/'',
                              depth = 0\<rparr>]
                       else []);
          st = foldl (buildEntry rootFolder hideRoot defaultDepth hiddenFiles)
                 ({}, fileList0) entries
      in sortBy (compareNodes localeCompare) (snd st))"

definition folderEntry :: "Dirent option" where
  "folderEntry = Some \<lparr>type = Folder, content = None, isBinary = None\<rparr>"

definition fileEntryOf :: "string \<Rightarrow> Dirent option" where
  "fileEntryOf text = Some \<lparr>type = File, content = Some text, isBinary = Some False\<rparr>"

text \<open>A map that is a closed tree.\<close>

definition exampleEntries :: "(string \<times> Dirent option) list" where
  "exampleEntries =
     [(''/src'', folderEntry), (''/src/a.ts'', fileEntryOf ''hi''),
      (''/b.ts'', fileEntryOf ''hi''), (''/lib'', folderEntry)]"

subsection \<open>Vocabulary for statements about the node list\<close>

text \<open>
  A comparator is consistent when the sign of \<open>cmp b a\<close> is the opposite of the sign
  of \<open>cmp a b\<close> and "not greater" is transitive: what \<open>Array.prototype.sort\<close>
  requires of its argument.
\<close>

definition consistentComparator :: "('a \<Rightarrow> 'a \<Rightarrow> int) \<Rightarrow> bool" where
  "consistentComparator cmp =
     ((\<forall>a b. (cmp a b < 0) = (0 < cmp b a))
      \<and> (\<forall>a b c. cmp a b \<le> 0 \<and> cmp b c \<le> 0 \<longrightarrow> cmp a c \<le> 0))"

text \<open>The path made of the given segments, each behind a slash.\<close>

definition joinPath :: "string list \<Rightarrow> string" where
  "joinPath segments = concat (map (\<lambda>segment. ''/'' @ segment) segments)"

text \<open>
  The paths, below \<open>cur\<close>, of the non-empty prefixes of a list of segments, the full
  list left out for a file: of \<open>a, b, c\<close> these are \<open>/a\<close>, \<open>/a/b\<close> and, unless the
  entry is a file, \<open>/a/b/c\<close>.
\<close>

definition pathsFrom :: "bool \<Rightarrow> string \<Rightarrow> string list \<Rightarrow> string list" where
  "pathsFrom isf cur segments =
     (let ps = map (\<lambda>q. cur @ joinPath q) (tl (prefixes segments))
      in if isf then butlast ps else ps)"

text \<open>
  The folder paths of an entry of the map: the ancestors of its path, and the path itself
  when the entry is not a file. The file path of an entry: its path, when the entry is a
  file and the path has a segment.
\<close>

definition folderPathsOf :: "string \<times> Dirent option \<Rightarrow> string list" where
  "folderPathsOf entry = pathsFrom (isFileDirent (snd entry)) [] (segmentsOf (fst entry))"

definition filePathOf :: "string \<times> Dirent option \<Rightarrow> string list" where
  "filePathOf entry =
     (if segmentsOf (fst entry) \<noteq> [] \<and> isFileDirent (snd entry)
      then [joinPath (segmentsOf (fst entry))] else [])"

text \<open>A prefix of a path under construction is empty or starts with a slash.\<close>

definition rooted :: "string \<Rightarrow> bool" where
  "rooted cur = (cur = [] \<or> hd cur = CHR ''/'')"

definition isFileNode :: "Node \<Rightarrow> bool" where
  "isFileNode n = (kind n = File)"

definition folderPathsIn :: "Node list \<Rightarrow> string list" where
  "folderPathsIn ns = map fullPath (filter (\<lambda>n. \<not> isFileNode n) ns)"

definition filePathsIn :: "Node list \<Rightarrow> string list" where
  "filePathsIn ns = map fullPath (filter isFileNode ns)"

text \<open>The synthetic root node, and what identifies a node and an entry.\<close>

definition rootNode :: Node where
  "rootNode = \<lparr>kind = Folder, node_id = 0, name = ''/'', fullPath = ''/'', depth = 0\<rparr>"

definition nodeKey :: "Node \<Rightarrow> string \<times> dirent_type" where
  "nodeKey n = (fullPath n, kind n)"

definition entryKey :: "string \<times> Dirent option \<Rightarrow> string \<times> dirent_type" where
  "entryKey entry = (fst entry, if isFileDirent (snd entry) then File else Folder)"

text \<open>
  A map is a closed tree when its keys are distinct, every key is a path in normal form
  with at least one segment, and every ancestor of a key is itself a key whose entry is
  not a file.
\<close>

definition closedTree :: "(string \<times> Dirent option) list \<Rightarrow> bool" where
  "closedTree entries =
     (distinct (map fst entries)
      \<and> list_all (\<lambda>entry.
            segmentsOf (fst entry) \<noteq> []
            \<and> joinPath (segmentsOf (fst entry)) = fst entry
            \<and> list_all (\<lambda>q. list_ex (\<lambda>parent. fst parent = q \<and> \<not> isFileDirent (snd parent)) entries)
                 (pathsFrom True [] (segmentsOf (fst entry)))) entries)"

text \<open>A comparator for examples: the order of the dictionary on character codes.\<close>

definition exampleCompare :: "string \<Rightarrow> string \<Rightarrow> int" where
  "exampleCompare a b = (if a < b then - 1 else if a = b then 0 else 1)"

text \<open>The node list of the collapse example.\<close>

definition collapseExample :: "Node list" where
  "collapseExample =
     [\<lparr>kind = Folder, node_id = 0, name = ''A'', fullPath = ''A'', depth = 0\<rparr>,
      \<lparr>kind = File, node_id = 1, name = ''x'', fullPath = ''A/x'', depth = 1\<rparr>,
      \<lparr>kind = Folder, node_id = 2, name = ''B'', fullPath = ''A/B'', depth = 1\<rparr>,
      \<lparr>kind = File, node_id = 3, name = ''y'', fullPath = ''A/B/y'', depth = 2\<rparr>,
      \<lparr>kind = Folder, node_id = 4, name = ''C'', fullPath = ''C'', depth = 0\<rparr>]"

section \<open>Vocabulary and examples for the store\<close>

subsection \<open>Vocabulary for statements about batches\<close>

text \<open>
  An event writes the path \<open>p\<close> when it is a directory-added, file-added or
  file-changed event whose sanitized path is \<open>p\<close>; it removes \<open>p\<close> when it is a
  file-removed event for \<open>p\<close> or a directory-removed event whose sanitized path is a
  string prefix of \<open>p\<close>. \<open>written\<close> is the entry a writing event stores.
\<close>

definition writes :: "PathWatcherEvent \<Rightarrow> string \<Rightarrow> bool" where
  "writes ev p =
     ((ev_type ev = add_dir \<or> ev_type ev = add_file \<or> ev_type ev = change)
      \<and> sanitize (path ev) = p)"

definition removes :: "PathWatcherEvent \<Rightarrow> string \<Rightarrow> bool" where
  "removes ev p =
     ((ev_type ev = remove_file \<and> sanitize (path ev) = p)
      \<or> (ev_type ev = remove_dir \<and> startsWith p (sanitize (path ev))))"

definition written :: "Platform \<Rightarrow> PathWatcherEvent \<Rightarrow> Dirent" where
  "written pf ev =
     (if ev_type ev = add_dir then \<lparr>type = Folder, content = None, isBinary = None\<rparr>
      else fileEntry pf (buffer ev))"

text \<open>A batch of two groups, used to run the model.\<close>

definition exampleBatch :: "PathWatcherEvent list list" where
  "exampleBatch =
     [[\<lparr>ev_type = add_dir, path = ''/src/'', buffer = None\<rparr>,
       \<lparr>ev_type = add_file, path = ''/src/a.ts'', buffer = Some [104, 105]\<rparr>],
      [\<lparr>ev_type = remove_dir, path = ''/src'', buffer = None\<rparr>,
       \<lparr>ev_type = add_file, path = ''/src/b.ts'', buffer = Some [98, 121, 101]\<rparr>]]"

text \<open>Stores used to run the model.\<close>

definition copyStore :: FilesStore where
  "copyStore =
     newFilesStore\<lparr>files :=
       [''/src'' \<mapsto> \<lparr>type = Folder, content = None, isBinary = None\<rparr>,
        ''/src/a.ts'' \<mapsto> \<lparr>type = File, content = Some ''hi'', isBinary = Some False\<rparr>,
        ''/src2'' \<mapsto> \<lparr>type = Folder, content = None, isBinary = None\<rparr>,
        ''/src.bak'' \<mapsto> \<lparr>type = File, content = Some ''old'', isBinary = Some False\<rparr>],
       filesCount := 2\<rparr>"

definition blankStore :: FilesStore where
  "blankStore =
     newFilesStore\<lparr>files :=
       [''/home/project/a.ts'' \<mapsto> \<lparr>type = File, content = Some [], isBinary = Some False\<rparr>,
        ''/home/project/logo.png'' \<mapsto> \<lparr>type = File, content = Some [], isBinary = Some True\<rparr>]\<rparr>"

definition hiStore :: FilesStore where
  "hiStore =
     newFilesStore\<lparr>files :=
       [''/home/project/src/a.ts'' \<mapsto> \<lparr>type = File, content = Some ''hi'', isBinary = Some False\<rparr>]\<rparr>"

text \<open>A path holds a file entry in a map.\<close>

definition isFileEntry :: "FileMap \<Rightarrow> string \<Rightarrow> bool" where
  "isFileEntry m p = (case m p of None \<Rightarrow> False | Some d \<Rightarrow> type d = File)"

section \<open>Properties of the file state store\<close>

subsection \<open>One event, and a sequence of events, seen from one path\<close>

lemma startsWith_self: "startsWith p p"
  by (simp add: startsWith_def)

lemma files_processEvent:
  "files (processEvent pf s ev) p =
     (if writes ev p then Some (written pf ev)
      else if removes ev p then None
      else files s p)"
  by (cases "ev_type ev")
     (auto simp: processEvent_def writes_def removes_def written_def Let_def startsWith_self)

lemma filesCount_processEvent:
  "filesCount (processEvent pf s ev) =
     filesCount s + (if ev_type ev = add_file then 1 else 0)
                  - (if ev_type ev = remove_file then 1 else 0)"
  by (cases "ev_type ev") (simp_all add: processEvent_def Let_def)

lemma files_foldl_stays_absent:
  "files s p = None \<Longrightarrow> \<forall>e\<in>set evs. \<not> writes e p \<Longrightarrow>
   files (foldl (processEvent pf) s evs) p = None"
  by (induction evs arbitrary: s) (simp_all add: files_processEvent)

lemma files_foldl_present:
  "files (foldl (processEvent pf) s evs) p = Some d \<Longrightarrow>
   (\<exists>pre ev post. evs = pre @ ev # post \<and> writes ev p \<and> d = written pf ev
        \<and> (\<forall>e\<in>set post. \<not> writes e p \<and> \<not> removes e p))
   \<or> ((\<forall>e\<in>set evs. \<not> writes e p \<and> \<not> removes e p) \<and> files s p = Some d)"
proof (induction evs arbitrary: d rule: rev_induct)
  case Nil
  then show ?case by simp
next
  case (snoc x xs)
  let ?s = "foldl (processEvent pf) s xs"
  from snoc.prems have step: "files (processEvent pf ?s x) p = Some d" by simp
  show ?case
  proof (cases "writes x p")
    case True
    with step have "d = written pf x" by (simp add: files_processEvent)
    with True have "xs @ [x] = xs @ x # [] \<and> writes x p \<and> d = written pf x
        \<and> (\<forall>e\<in>set []. \<not> writes e p \<and> \<not> removes e p)" by simp
    then show ?thesis by blast
  next
    case False
    with step have nr: "\<not> removes x p" and prev: "files ?s p = Some d"
      by (auto simp: files_processEvent split: if_splits)
    from snoc.IH[OF prev] show ?thesis
    proof
      assume "\<exists>pre ev post. xs = pre @ ev # post \<and> writes ev p \<and> d = written pf ev
        \<and> (\<forall>e\<in>set post. \<not> writes e p \<and> \<not> removes e p)"
      then obtain pre ev post where "xs = pre @ ev # post" "writes ev p" "d = written pf ev"
        "\<forall>e\<in>set post. \<not> writes e p \<and> \<not> removes e p" by blast
      with False nr have "xs @ [x] = pre @ ev # (post @ [x]) \<and> writes ev p \<and> d = written pf ev
        \<and> (\<forall>e\<in>set (post @ [x]). \<not> writes e p \<and> \<not> removes e p)" by simp
      then show ?thesis by blast
    next
      assume "(\<forall>e\<in>set xs. \<not> writes e p \<and> \<not> removes e p) \<and> files s p = Some d"
      with False nr show ?thesis by simp
    qed
  qed
qed

lemma files_foldl_dichotomy:
  "(\<forall>s s'. files (foldl (processEvent pf) s evs) p = files (foldl (processEvent pf) s' evs) p)
   \<or> (\<forall>s. files (foldl (processEvent pf) s evs) p = files s p)"
proof (induction evs rule: rev_induct)
  case Nil
  then show ?case by simp
next
  case (snoc x xs)
  then show ?case by (auto simp: files_processEvent)
qed

lemma files_foldl_idem:
  "files (foldl (processEvent pf) (foldl (processEvent pf) s evs) evs) p
     = files (foldl (processEvent pf) s evs) p"
  using files_foldl_dichotomy[of pf evs p] by metis

lemma exampleBatch_b:
  "files (processEventBuffer examplePlatform newFilesStore exampleBatch) ''/src/b.ts''
     = Some \<lparr>type = File, content = Some ''bye'', isBinary = Some False\<rparr>"
  by code_simp


subsection \<open>Which event decides a path\<close>

text \<open>
  Claim C1, as stated, fails: a path that received a directory-removed event, or is
  prefixed by the path of one, is not always absent after the batch. A later event of the
  batch can add it again: after \<open>remove_dir /src\<close> followed by \<open>add_dir /src/lib\<close> the
  path \<open>/src/lib\<close> is present.
\<close>

theorem re_added_after_remove_dir_counterexample:
  "startsWith ''/src/lib'' (sanitize ''/src'')
   \<and> files (processEventBuffer examplePlatform newFilesStore
        [[\<lparr>ev_type = remove_dir, path = ''/src'', buffer = None\<rparr>,
          \<lparr>ev_type = add_dir, path = ''/src/lib'', buffer = None\<rparr>]]) ''/src/lib''
       = Some \<lparr>type = Folder, content = None, isBinary = None\<rparr>"
  by (simp add: processEventBuffer_def files_processEvent writes_def removes_def written_def
        sanitize_def startsWith_def)


text \<open>
  Claim C1, amended. After any batch, from any starting store: a path that is present
  holds the entry written by the most recent event that writes it, and no later event of
  the batch writes or removes it (or no event of the batch touches the path and the entry
  was there before); and a path that is prefixed by the path of a directory-removed event
  is absent, provided no later event of the batch writes it.
\<close>

theorem processEventBuffer_last_event_wins:
  "(\<forall>d. files (processEventBuffer pf s events) p = Some d \<longrightarrow>
        (\<exists>pre ev post. concat events = pre @ ev # post \<and> writes ev p \<and> d = written pf ev
            \<and> (\<forall>e\<in>set post. \<not> writes e p \<and> \<not> removes e p))
        \<or> ((\<forall>e\<in>set (concat events). \<not> writes e p \<and> \<not> removes e p) \<and> files s p = Some d))
   \<and> (\<forall>pre ev post. concat events = pre @ ev # post \<and> ev_type ev = remove_dir
          \<and> startsWith p (sanitize (path ev)) \<and> (\<forall>e\<in>set post. \<not> writes e p)
        \<longrightarrow> files (processEventBuffer pf s events) p = None)"
proof (intro conjI allI impI)
  fix d assume "files (processEventBuffer pf s events) p = Some d"
  then show "(\<exists>pre ev post. concat events = pre @ ev # post \<and> writes ev p \<and> d = written pf ev
            \<and> (\<forall>e\<in>set post. \<not> writes e p \<and> \<not> removes e p))
        \<or> ((\<forall>e\<in>set (concat events). \<not> writes e p \<and> \<not> removes e p) \<and> files s p = Some d)"
    unfolding processEventBuffer_def by (rule files_foldl_present)
next
  fix pre ev post
  assume a: "concat events = pre @ ev # post \<and> ev_type ev = remove_dir
          \<and> startsWith p (sanitize (path ev)) \<and> (\<forall>e\<in>set post. \<not> writes e p)"
  let ?mid = "processEvent pf (foldl (processEvent pf) s pre) ev"
  from a have "removes ev p" "\<not> writes ev p" by (simp_all add: removes_def writes_def)
  then have "files ?mid p = None" by (simp add: files_processEvent)
  moreover from a have "\<forall>e\<in>set post. \<not> writes e p" by simp
  ultimately have "files (foldl (processEvent pf) ?mid post) p = None"
    by (rule files_foldl_stays_absent)
  with a show "files (processEventBuffer pf s events) p = None"
    by (simp add: processEventBuffer_def)
qed


theorem processEventBuffer_last_event_wins_witness:
  "files (processEventBuffer examplePlatform newFilesStore exampleBatch) ''/src/b.ts''
     = Some \<lparr>type = File, content = Some ''bye'', isBinary = Some False\<rparr>
   \<and> (\<exists>pre ev post. concat exampleBatch = pre @ ev # post \<and> writes ev ''/src/b.ts''
        \<and> \<lparr>type = File, content = Some ''bye'', isBinary = Some False\<rparr> = written examplePlatform ev
        \<and> (\<forall>e\<in>set post. \<not> writes e ''/src/b.ts'' \<and> \<not> removes e ''/src/b.ts''))
   \<and> files (processEventBuffer examplePlatform newFilesStore exampleBatch) ''/src/a.ts'' = None"
proof -
  let ?rd = "\<lparr>ev_type = remove_dir, path = ''/src'', buffer = None\<rparr>"
  let ?b = "\<lparr>ev_type = add_file, path = ''/src/b.ts'', buffer = Some [98, 121, 101]\<rparr>"
  let ?pre = "[\<lparr>ev_type = add_dir, path = ''/src/'', buffer = None\<rparr>,
       \<lparr>ev_type = add_file, path = ''/src/a.ts'', buffer = Some [104, 105]\<rparr>]"
  note thm_b = processEventBuffer_last_event_wins
    [of examplePlatform newFilesStore exampleBatch "''/src/b.ts''"]
  note thm_a = processEventBuffer_last_event_wins
    [of examplePlatform newFilesStore exampleBatch "''/src/a.ts''"]
  have touched: "\<not> (\<forall>e\<in>set (concat exampleBatch).
      \<not> writes e ''/src/b.ts'' \<and> \<not> removes e ''/src/b.ts'')"
    by (simp add: exampleBatch_def writes_def sanitize_def)
  have hyp: "concat exampleBatch = ?pre @ ?rd # [?b] \<and> ev_type ?rd = remove_dir
      \<and> startsWith ''/src/a.ts'' (sanitize (path ?rd))
      \<and> (\<forall>e\<in>set [?b]. \<not> writes e ''/src/a.ts'')"
    by (simp add: exampleBatch_def writes_def sanitize_def startsWith_def)
  from thm_b exampleBatch_b touched
  have "\<exists>pre ev post. concat exampleBatch = pre @ ev # post \<and> writes ev ''/src/b.ts''
        \<and> \<lparr>type = File, content = Some ''bye'', isBinary = Some False\<rparr> = written examplePlatform ev
        \<and> (\<forall>e\<in>set post. \<not> writes e ''/src/b.ts'' \<and> \<not> removes e ''/src/b.ts'')"
    by blast
  moreover from thm_a hyp
  have "files (processEventBuffer examplePlatform newFilesStore exampleBatch) ''/src/a.ts'' = None"
    by blast
  ultimately show ?thesis using exampleBatch_b by blast
qed


subsection \<open>Idempotence\<close>

text \<open>
  Claim C7. Processing a batch a second time, with the same payloads classified and
  decoded the same way, leaves the FileMap as the first pass left it; in particular a
  second file-added event with the same path and payload does not change the map.
\<close>

theorem processEventBuffer_idempotent_on_files:
  "files (processEventBuffer pf (processEventBuffer pf s events) events)
     = files (processEventBuffer pf s events)
   \<and> files (processEventBuffer pf s
        [[\<lparr>ev_type = add_file, path = q, buffer = b\<rparr>], [\<lparr>ev_type = add_file, path = q, buffer = b\<rparr>]])
     = files (processEventBuffer pf s [[\<lparr>ev_type = add_file, path = q, buffer = b\<rparr>]])"
proof
  show "files (processEventBuffer pf (processEventBuffer pf s events) events)
     = files (processEventBuffer pf s events)"
    unfolding processEventBuffer_def by (rule ext) (rule files_foldl_idem)
  show "files (processEventBuffer pf s
        [[\<lparr>ev_type = add_file, path = q, buffer = b\<rparr>], [\<lparr>ev_type = add_file, path = q, buffer = b\<rparr>]])
     = files (processEventBuffer pf s [[\<lparr>ev_type = add_file, path = q, buffer = b\<rparr>]])"
    unfolding processEventBuffer_def by (rule ext) (simp add: files_processEvent)
qed

subsection \<open>Removing a directory\<close>

text \<open>
  Claim C8. A directory-removed event for \<open>p\<close> removes every entry whose path has the
  sanitized \<open>p\<close> as a string prefix, whether or not the path is a descendant of \<open>p\<close>:
  removing \<open>/src\<close> also removes the siblings \<open>/src2\<close> and \<open>/src.bak\<close>.
\<close>

theorem remove_dir_removes_by_string_prefix:
  "(ev_type ev = remove_dir \<and> startsWith p (sanitize (path ev))
      \<longrightarrow> files (processEventBuffer pf s [[ev]]) p = None)
   \<and> files (processEventBuffer pf s [[\<lparr>ev_type = remove_dir, path = ''/src'', buffer = b\<rparr>]])
        ''/src2'' = None
   \<and> files (processEventBuffer pf s [[\<lparr>ev_type = remove_dir, path = ''/src'', buffer = b\<rparr>]])
        ''/src.bak'' = None"
  by (simp add: processEventBuffer_def files_processEvent writes_def removes_def
        sanitize_def startsWith_def)

theorem remove_dir_removes_by_string_prefix_witness:
  "files copyStore ''/src2'' \<noteq> None \<and> files copyStore ''/src.bak'' \<noteq> None
   \<and> startsWith ''/src2'' (sanitize ''/src'')
   \<and> files (processEventBuffer examplePlatform copyStore
         [[\<lparr>ev_type = remove_dir, path = ''/src'', buffer = None\<rparr>]]) ''/src2'' = None
   \<and> files (processEventBuffer examplePlatform copyStore
         [[\<lparr>ev_type = remove_dir, path = ''/src'', buffer = None\<rparr>]]) ''/src.bak'' = None"
proof -
  have present: "files copyStore ''/src2'' \<noteq> None \<and> files copyStore ''/src.bak'' \<noteq> None"
    by (simp add: copyStore_def newFilesStore_def)
  have hyp: "ev_type \<lparr>ev_type = remove_dir, path = ''/src'', buffer = None\<rparr> = remove_dir
      \<and> startsWith ''/src2'' (sanitize (path \<lparr>ev_type = remove_dir, path = ''/src'', buffer = None\<rparr>))"
    by (simp add: sanitize_def startsWith_def)
  from remove_dir_removes_by_string_prefix
    [of "\<lparr>ev_type = remove_dir, path = ''/src'', buffer = None\<rparr>" "''/src2''"
        examplePlatform copyStore None] hyp present
  show ?thesis by simp
qed

subsection \<open>The file counter\<close>

lemma filesCount_foldl:
  "filesCount (foldl (processEvent pf) s evs) =
     filesCount s + int (length (filter (\<lambda>e. ev_type e = add_file) evs))
                  - int (length (filter (\<lambda>e. ev_type e = remove_file) evs))"
  by (induction evs arbitrary: s) (simp_all add: filesCount_processEvent)

text \<open>
  Claim C9. \<open>filesCount\<close> moves only with file-added events (up by one) and
  file-removed events (down by one). A directory-removed event leaves it as it is, also
  when the cascade deletes file entries; a file-removed event lowers it also when the
  path is absent. So after \<open>add_file /src/a.ts\<close> and \<open>remove_dir /src\<close> on a new store
  the counter is 1 while the map holds no file entry, and after \<open>remove_file /x\<close> on a
  new store it is -1.
\<close>

theorem filesCount_counts_events_not_entries:
  "filesCount (processEventBuffer pf s events) =
     filesCount s + int (length (filter (\<lambda>e. ev_type e = add_file) (concat events)))
                  - int (length (filter (\<lambda>e. ev_type e = remove_file) (concat events)))
   \<and> filesCount (processEventBuffer pf s [[\<lparr>ev_type = remove_dir, path = q, buffer = b\<rparr>]])
        = filesCount s
   \<and> filesCount (processEventBuffer pf s [[\<lparr>ev_type = remove_file, path = q, buffer = b\<rparr>]])
        = filesCount s - 1
   \<and> filesCount (processEventBuffer pf newFilesStore
        [[\<lparr>ev_type = add_file, path = ''/src/a.ts'', buffer = None\<rparr>,
          \<lparr>ev_type = remove_dir, path = ''/src'', buffer = None\<rparr>]]) = 1
   \<and> card {p. isFileEntry (files (processEventBuffer pf newFilesStore
        [[\<lparr>ev_type = add_file, path = ''/src/a.ts'', buffer = None\<rparr>,
          \<lparr>ev_type = remove_dir, path = ''/src'', buffer = None\<rparr>]])) p} = 0
   \<and> files newFilesStore ''/x'' = None
   \<and> filesCount (processEventBuffer pf newFilesStore
        [[\<lparr>ev_type = remove_file, path = ''/x'', buffer = None\<rparr>]]) = - 1"
proof -
  let ?evs = "[[\<lparr>ev_type = add_file, path = ''/src/a.ts'', buffer = None\<rparr>,
          \<lparr>ev_type = remove_dir, path = ''/src'', buffer = None\<rparr>]]"
  have "files (processEventBuffer pf newFilesStore ?evs) p = None" for p
    by (auto simp: processEventBuffer_def files_processEvent writes_def removes_def
        sanitize_def startsWith_def newFilesStore_def)
  then have "{p. isFileEntry (files (processEventBuffer pf newFilesStore ?evs)) p} = {}"
    by (simp add: isFileEntry_def)
  then have "card {p. isFileEntry (files (processEventBuffer pf newFilesStore ?evs)) p} = 0"
    by simp
  moreover have "filesCount (processEventBuffer pf s events) =
     filesCount s + int (length (filter (\<lambda>e. ev_type e = add_file) (concat events)))
                  - int (length (filter (\<lambda>e. ev_type e = remove_file) (concat events)))"
    unfolding processEventBuffer_def by (rule filesCount_foldl)
  ultimately show ?thesis
    by (simp add: processEventBuffer_def filesCount_processEvent newFilesStore_def)
qed

subsection \<open>Binary and undecodable payloads\<close>

text \<open>
  Claim C6, as stated, fails in its first half: an entry for a binary payload is not
  stored without content. The field \<open>content\<close> is set, to the empty string, and
  \<open>getFile\<close> returns the empty string for the path, not undefined.
\<close>

theorem binary_content_is_empty_string_counterexample:
  "isBinaryFile examplePlatform (Some [137, 80, 0])
   \<and> files (processEventBuffer examplePlatform newFilesStore
        [[\<lparr>ev_type = add_file, path = ''/logo.png'', buffer = Some [137, 80, 0]\<rparr>]]) ''/logo.png''
       = Some \<lparr>type = File, content = Some [], isBinary = Some True\<rparr>
   \<and> content \<lparr>type = File, content = Some [], isBinary = Some True\<rparr> \<noteq> None
   \<and> getFile (processEventBuffer examplePlatform newFilesStore
        [[\<lparr>ev_type = add_file, path = ''/logo.png'', buffer = Some [137, 80, 0]\<rparr>]]) ''/logo.png''
       = Some []"
  by (simp add: processEventBuffer_def files_processEvent writes_def written_def sanitize_def
        fileEntry_def isBinaryFile_def examplePlatform_def getFile_def Let_def)

text \<open>
  Claim C6, amended. For a file-added or file-changed event: when the payload is
  classified binary, the entry is a file with \<open>isBinary\<close> true and the empty string as
  content; when the payload is text and the strict decoder throws, the exception is
  caught, the content is the empty string and \<open>isBinary\<close> is false. The event is
  processed like any other: the counter moves as usual and the rest of the batch is
  processed.
\<close>

theorem file_event_binary_or_undecodable:
  assumes "ev_type ev = add_file \<or> ev_type ev = change"
  shows "(isBinaryFile pf (buffer ev) \<longrightarrow>
            files (processEventBuffer pf s [[ev]]) (sanitize (path ev))
              = Some \<lparr>type = File, content = Some [], isBinary = Some True\<rparr>)
       \<and> (\<forall>b err. buffer ev = Some b \<and> \<not> isBinaryFile pf (buffer ev) \<and> decode pf b = Inl err \<longrightarrow>
            decodeFileContent pf (buffer ev) = []
            \<and> files (processEventBuffer pf s [[ev]]) (sanitize (path ev))
              = Some \<lparr>type = File, content = Some [], isBinary = Some False\<rparr>)
       \<and> filesCount (processEventBuffer pf s [[ev]])
            = filesCount s + (if ev_type ev = add_file then 1 else 0)
       \<and> processEventBuffer pf s ([ev] # rest)
            = processEventBuffer pf (processEventBuffer pf s [[ev]]) rest"
  using assms
  by (auto simp: processEventBuffer_def files_processEvent filesCount_processEvent writes_def
        written_def fileEntry_def decodeFileContent_def Let_def)

theorem file_event_binary_or_undecodable_witness:
  "isBinaryFile examplePlatform (Some [137, 80, 0])
   \<and> files (processEventBuffer examplePlatform newFilesStore
        [[\<lparr>ev_type = add_file, path = ''/logo.png'', buffer = Some [137, 80, 0]\<rparr>]]) ''/logo.png''
       = Some \<lparr>type = File, content = Some [], isBinary = Some True\<rparr>
   \<and> \<not> isBinaryFile examplePlatform (Some [104, 255])
   \<and> decode examplePlatform [104, 255] = Inl TypeError
   \<and> files (processEventBuffer examplePlatform newFilesStore
        [[\<lparr>ev_type = change, path = ''/a.txt'', buffer = Some [104, 255]\<rparr>]]) ''/a.txt''
       = Some \<lparr>type = File, content = Some [], isBinary = Some False\<rparr>"
proof -
  let ?e1 = "\<lparr>ev_type = add_file, path = ''/logo.png'', buffer = Some [137, 80, 0]\<rparr>"
  let ?e2 = "\<lparr>ev_type = change, path = ''/a.txt'', buffer = Some [104, 255]\<rparr>"
  have k1: "ev_type ?e1 = add_file \<or> ev_type ?e1 = change" by simp
  have k2: "ev_type ?e2 = add_file \<or> ev_type ?e2 = change" by simp
  have b1: "isBinaryFile examplePlatform (Some [137, 80, 0])"
    by (simp add: isBinaryFile_def examplePlatform_def)
  have b2: "\<not> isBinaryFile examplePlatform (Some [104, 255])"
    by (simp add: isBinaryFile_def examplePlatform_def)
  have d2: "decode examplePlatform [104, 255] = Inl TypeError"
    by (simp add: examplePlatform_def)
  have s1: "sanitize ''/logo.png'' = ''/logo.png''" and s2: "sanitize ''/a.txt'' = ''/a.txt''"
    by (simp_all add: sanitize_def)
  from file_event_binary_or_undecodable[OF k1, of examplePlatform newFilesStore "[]"] b1 s1
  have r1: "files (processEventBuffer examplePlatform newFilesStore [[?e1]]) ''/logo.png''
       = Some \<lparr>type = File, content = Some [], isBinary = Some True\<rparr>" by simp
  from file_event_binary_or_undecodable[OF k2, of examplePlatform newFilesStore "[]"] b2 d2 s2
  have r2: "files (processEventBuffer examplePlatform newFilesStore [[?e2]]) ''/a.txt''
       = Some \<lparr>type = File, content = Some [], isBinary = Some False\<rparr>" by simp
  from b1 b2 d2 r1 r2 show ?thesis by blast
qed

section \<open>Properties of saveFile\<close>

lemma saveFile_success:
  assumes "writeFile wc (relative pf (workdir wc) p) c = None"
  shows "thrown (saveFile pf (Inr wc) s p c) = None"
    and "files (store (saveFile pf (Inr wc) s p c))
           = (files s)(p \<mapsto> \<lparr>type = File, content = Some c, isBinary = Some False\<rparr>)"
    and "modifiedFiles (store (saveFile pf (Inr wc) s p c))
           = (case getFile s p of
                None \<Rightarrow> modifiedFiles s
              | Some old \<Rightarrow>
                  if old \<noteq> [] \<and> modifiedFiles s p = None then (modifiedFiles s)(p \<mapsto> old)
                  else modifiedFiles s)"
    and "getFile (store (saveFile pf (Inr wc) s p c)) p = Some c"
  using assms by (auto simp: saveFile_def Let_def getFile_def split: option.splits)

text \<open>
  Claim C2. \<open>saveFile\<close> calls the sandbox's \<open>writeFile\<close> before any local mutation:
  no effect before the write is a mutation of the store. When the write is rejected the
  call throws the same error, and the store, hence the FileMap and the modification set,
  is the store before the call; the same holds when the sandbox itself is not available.
\<close>

theorem saveFile_writes_through_first:
  "(\<forall>e\<in>set (takeWhile (\<lambda>e. \<not> isFsWriteFile e)
              (trace (saveFile pf webcontainer this filePath newContent))).
        \<not> isLocalMutation e)
   \<and> (\<forall>wc err. webcontainer = Inr wc
          \<and> writeFile wc (relative pf (workdir wc) filePath) newContent = Some err \<longrightarrow>
        thrown (saveFile pf webcontainer this filePath newContent) = Some err
        \<and> store (saveFile pf webcontainer this filePath newContent) = this
        \<and> trace (saveFile pf webcontainer this filePath newContent)
            = [FsWriteFile (relative pf (workdir wc) filePath) newContent, LoggerError err])
   \<and> (\<forall>wc. webcontainer = Inr wc
          \<and> writeFile wc (relative pf (workdir wc) filePath) newContent = None \<longrightarrow>
        thrown (saveFile pf webcontainer this filePath newContent) = None
        \<and> (\<exists>rest. trace (saveFile pf webcontainer this filePath newContent)
              = FsWriteFile (relative pf (workdir wc) filePath) newContent # rest))
   \<and> (\<forall>err. webcontainer = Inl err \<longrightarrow>
        thrown (saveFile pf webcontainer this filePath newContent) = Some err
        \<and> store (saveFile pf webcontainer this filePath newContent) = this)
   \<and> (thrown (saveFile pf webcontainer this filePath newContent) \<noteq> None \<longrightarrow>
        files (store (saveFile pf webcontainer this filePath newContent)) = files this
        \<and> modifiedFiles (store (saveFile pf webcontainer this filePath newContent))
            = modifiedFiles this)"
  by (auto simp: saveFile_def Let_def split: sum.splits option.splits)

theorem saveFile_writes_through_first_witness:
  "writeFile badContainer (relative examplePlatform (workdir badContainer) ''/home/project/src/a.ts'')
       ''bye'' = Some (Rejected ''EIO'')
   \<and> thrown (saveFile examplePlatform (Inr badContainer) hiStore ''/home/project/src/a.ts'' ''bye'')
       = Some (Rejected ''EIO'')
   \<and> store (saveFile examplePlatform (Inr badContainer) hiStore ''/home/project/src/a.ts'' ''bye'')
       = hiStore
   \<and> trace (saveFile examplePlatform (Inr badContainer) hiStore ''/home/project/src/a.ts'' ''bye'')
       = [FsWriteFile ''src/a.ts'' ''bye'', LoggerError (Rejected ''EIO'')]"
proof -
  have w: "writeFile badContainer
      (relative examplePlatform (workdir badContainer) ''/home/project/src/a.ts'') ''bye''
        = Some (Rejected ''EIO'')"
    by (simp add: badContainer_def)
  have r: "relative examplePlatform (workdir badContainer) ''/home/project/src/a.ts'' = ''src/a.ts''"
    by (simp add: badContainer_def examplePlatform_def)
  from saveFile_writes_through_first
    [of examplePlatform "Inr badContainer" hiStore "''/home/project/src/a.ts''" "''bye''"] w r
  show ?thesis by simp
qed

text \<open>
  Claim C3, as stated, fails for a stored file whose prior content is the empty string:
  \<open>oldContent && ...\<close> is false for it, so a successful save captures nothing
  although the path has no snapshot, and the second save, which finds the content the
  first one wrote, changes the modification set.
\<close>

theorem empty_prior_content_counterexample:
  "getFile blankStore ''/home/project/a.ts'' = Some []
   \<and> modifiedFiles blankStore ''/home/project/a.ts'' = None
   \<and> thrown (saveFile examplePlatform (Inr goodContainer) blankStore ''/home/project/a.ts'' ''a'')
       = None
   \<and> modifiedFiles (store (saveFile examplePlatform (Inr goodContainer) blankStore
         ''/home/project/a.ts'' ''a'')) ''/home/project/a.ts'' = None
   \<and> thrown (saveFile examplePlatform (Inr goodContainer)
         (store (saveFile examplePlatform (Inr goodContainer) blankStore
            ''/home/project/a.ts'' ''a''))
         ''/home/project/a.ts'' ''b'') = None
   \<and> modifiedFiles (store (saveFile examplePlatform (Inr goodContainer)
         (store (saveFile examplePlatform (Inr goodContainer) blankStore
            ''/home/project/a.ts'' ''a''))
         ''/home/project/a.ts'' ''b'')) ''/home/project/a.ts'' = Some ''a''"
  by (simp add: saveFile_def Let_def getFile_def blankStore_def newFilesStore_def
        goodContainer_def)

text \<open>
  Claim C3, amended. For a path whose stored file has non-empty prior content, a
  successful \<open>saveFile\<close> records that content as the snapshot exactly when the path has
  no snapshot yet, and stores the new content as a non-binary file. A second successful
  save of the path stores its content and leaves the modification set as the first save
  left it. After \<open>resetFileModifications\<close> the set is empty, and the next save
  captures again.
\<close>

theorem saveFile_first_write_wins:
  assumes old: "getFile s p = Some old" "old \<noteq> []"
    and w1: "writeFile wc (relative pf (workdir wc) p) c1 = None"
    and w2: "writeFile wc (relative pf (workdir wc) p) c2 = None"
    and w3: "writeFile wc (relative pf (workdir wc) p) c3 = None"
    and s1: "s1 = store (saveFile pf (Inr wc) s p c1)"
    and s2: "s2 = store (saveFile pf (Inr wc) s1 p c2)"
    and s3: "s3 = store (saveFile pf (Inr wc) (resetFileModifications s2) p c3)"
  shows "modifiedFiles s1 p = (case modifiedFiles s p of None \<Rightarrow> Some old | Some snap \<Rightarrow> Some snap)
       \<and> (\<forall>q. q \<noteq> p \<longrightarrow> modifiedFiles s1 q = modifiedFiles s q)
       \<and> files s1 p = Some \<lparr>type = File, content = Some c1, isBinary = Some False\<rparr>
       \<and> files s2 p = Some \<lparr>type = File, content = Some c2, isBinary = Some False\<rparr>
       \<and> modifiedFiles s2 = modifiedFiles s1
       \<and> getFileModifications (resetFileModifications s2) = Map.empty
       \<and> modifiedFiles s3 = (if c2 \<noteq> [] then [p \<mapsto> c2] else Map.empty)"
proof -
  have m1: "modifiedFiles s1 = (if modifiedFiles s p = None then (modifiedFiles s)(p \<mapsto> old)
        else modifiedFiles s)"
    unfolding s1 using old by (simp add: saveFile_success(3)[OF w1])
  then have in1: "modifiedFiles s1 p \<noteq> None" by auto
  have g1: "getFile s1 p = Some c1" unfolding s1 by (rule saveFile_success(4)[OF w1])
  have m2: "modifiedFiles s2 = modifiedFiles s1"
    unfolding s2 using in1 g1 by (auto simp: saveFile_success(3)[OF w2])
  have g2: "getFile s2 p = Some c2" unfolding s2 by (rule saveFile_success(4)[OF w2])
  then have gr: "getFile (resetFileModifications s2) p = Some c2"
    by (simp add: getFile_def resetFileModifications_def)
  have m3: "modifiedFiles s3 = (if c2 \<noteq> [] then [p \<mapsto> c2] else Map.empty)"
    unfolding s3 using gr
    by (simp add: saveFile_success(3)[OF w3]) (simp add: resetFileModifications_def)
  have f1: "files s1 p = Some \<lparr>type = File, content = Some c1, isBinary = Some False\<rparr>"
    unfolding s1 by (simp add: saveFile_success(2)[OF w1])
  have f2: "files s2 p = Some \<lparr>type = File, content = Some c2, isBinary = Some False\<rparr>"
    unfolding s2 by (simp add: saveFile_success(2)[OF w2])
  have r: "getFileModifications (resetFileModifications s2) = Map.empty"
    by (simp add: getFileModifications_def resetFileModifications_def)
  from m1 m2 m3 f1 f2 r show ?thesis by (auto split: option.splits)
qed

theorem saveFile_first_write_wins_witness:
  "getFile hiStore ''/home/project/src/a.ts'' = Some ''hi''
   \<and> modifiedFiles (store (saveFile examplePlatform (Inr goodContainer) hiStore
         ''/home/project/src/a.ts'' ''bye'')) ''/home/project/src/a.ts'' = Some ''hi''
   \<and> files (store (saveFile examplePlatform (Inr goodContainer) hiStore
         ''/home/project/src/a.ts'' ''bye'')) ''/home/project/src/a.ts''
       = Some \<lparr>type = File, content = Some ''bye'', isBinary = Some False\<rparr>
   \<and> modifiedFiles (store (saveFile examplePlatform (Inr goodContainer)
         (store (saveFile examplePlatform (Inr goodContainer) hiStore
            ''/home/project/src/a.ts'' ''bye''))
         ''/home/project/src/a.ts'' ''bye2'')) ''/home/project/src/a.ts'' = Some ''hi''
   \<and> files (store (saveFile examplePlatform (Inr goodContainer)
         (store (saveFile examplePlatform (Inr goodContainer) hiStore
            ''/home/project/src/a.ts'' ''bye''))
         ''/home/project/src/a.ts'' ''bye2'')) ''/home/project/src/a.ts''
       = Some \<lparr>type = File, content = Some ''bye2'', isBinary = Some False\<rparr>"
proof -
  have g: "getFile hiStore ''/home/project/src/a.ts'' = Some ''hi''"
    by (simp add: getFile_def hiStore_def newFilesStore_def)
  have ne: "''hi'' \<noteq> []" by simp
  have m: "modifiedFiles hiStore ''/home/project/src/a.ts'' = None"
    by (simp add: hiStore_def newFilesStore_def)
  have w: "writeFile goodContainer
      (relative examplePlatform (workdir goodContainer) ''/home/project/src/a.ts'') c = None" for c
    by (simp add: goodContainer_def)
  from saveFile_first_write_wins[OF g ne w w w refl refl refl, of "''bye''" "''bye2''" "''x''"] m g
  show ?thesis by simp
qed

text \<open>
  Claim C10, as stated, fails: a path whose stored content is the empty string does
  appear in \<open>getFileModifications\<close> after two saves. The first save records nothing,
  but it stores its content; the second save finds that content and records it.
\<close>

theorem falsy_content_snapshot_counterexample:
  "getFile blankStore ''/home/project/a.ts'' = Some []
   \<and> thrown (saveFile examplePlatform (Inr goodContainer) blankStore ''/home/project/a.ts'' ''a'')
       = None
   \<and> thrown (saveFile examplePlatform (Inr goodContainer)
         (store (saveFile examplePlatform (Inr goodContainer) blankStore
            ''/home/project/a.ts'' ''a''))
         ''/home/project/a.ts'' ''b'') = None
   \<and> getFileModifications (store (saveFile examplePlatform (Inr goodContainer)
         (store (saveFile examplePlatform (Inr goodContainer) blankStore
            ''/home/project/a.ts'' ''a''))
         ''/home/project/a.ts'' ''b'')) ''/home/project/a.ts'' = Some True"
  by (simp add: saveFile_def Let_def getFile_def blankStore_def newFilesStore_def
        goodContainer_def getFileModifications_def)

text \<open>
  Claim C10, amended. For a path whose stored content is the empty string, or for which
  \<open>getFile\<close> yields undefined (an absent path, a folder, a file without content), a
  successful \<open>saveFile\<close> records no snapshot: the modification set is unchanged by
  that call. The next successful save of the path records the content written by the
  first one when that content is not empty and the path has no snapshot.
\<close>

theorem saveFile_falsy_content_no_snapshot:
  assumes falsy: "getFile s p = None \<or> getFile s p = Some []"
    and w1: "writeFile wc (relative pf (workdir wc) p) c1 = None"
    and w2: "writeFile wc (relative pf (workdir wc) p) c2 = None"
    and s1: "s1 = store (saveFile pf (Inr wc) s p c1)"
    and s2: "s2 = store (saveFile pf (Inr wc) s1 p c2)"
  shows "modifiedFiles s1 = modifiedFiles s
       \<and> getFileModifications s1 = getFileModifications s
       \<and> trace (saveFile pf (Inr wc) s p c1)
           = [FsWriteFile (relative pf (workdir wc) p) c1,
              FilesSetKey p \<lparr>type = File, content = Some c1, isBinary = Some False\<rparr>, LoggerInfo]
       \<and> modifiedFiles s2
           = (if c1 \<noteq> [] \<and> modifiedFiles s p = None then (modifiedFiles s)(p \<mapsto> c1)
              else modifiedFiles s)"
proof -
  have m1: "modifiedFiles s1 = modifiedFiles s"
    unfolding s1 using falsy by (auto simp: saveFile_success(3)[OF w1])
  then have gm: "getFileModifications s1 = getFileModifications s"
    by (simp add: getFileModifications_def)
  have t: "trace (saveFile pf (Inr wc) s p c1)
           = [FsWriteFile (relative pf (workdir wc) p) c1,
              FilesSetKey p \<lparr>type = File, content = Some c1, isBinary = Some False\<rparr>, LoggerInfo]"
    using falsy w1 by (auto simp: saveFile_def Let_def)
  have g1: "getFile s1 p = Some c1" unfolding s1 by (rule saveFile_success(4)[OF w1])
  have m2: "modifiedFiles s2
           = (if c1 \<noteq> [] \<and> modifiedFiles s p = None then (modifiedFiles s)(p \<mapsto> c1)
              else modifiedFiles s)"
    unfolding s2 using g1 m1 by (simp add: saveFile_success(3)[OF w2])
  from m1 gm t m2 show ?thesis by blast
qed

theorem saveFile_falsy_content_no_snapshot_witness:
  "getFile blankStore ''/home/project/logo.png'' = Some []
   \<and> getFile blankStore ''/home/project/new.ts'' = None
   \<and> getFileModifications (store (saveFile examplePlatform (Inr goodContainer) blankStore
         ''/home/project/logo.png'' ''a'')) = getFileModifications blankStore
   \<and> getFileModifications (store (saveFile examplePlatform (Inr goodContainer) blankStore
         ''/home/project/new.ts'' ''a'')) = getFileModifications blankStore
   \<and> modifiedFiles (store (saveFile examplePlatform (Inr goodContainer)
         (store (saveFile examplePlatform (Inr goodContainer) blankStore
            ''/home/project/new.ts'' ''a''))
         ''/home/project/new.ts'' ''b'')) = [''/home/project/new.ts'' \<mapsto> ''a'']"
proof -
  have g1: "getFile blankStore ''/home/project/logo.png'' = Some []"
    and g2: "getFile blankStore ''/home/project/new.ts'' = None"
    by (simp_all add: getFile_def blankStore_def newFilesStore_def)
  have m: "modifiedFiles blankStore = Map.empty"
    by (simp add: blankStore_def newFilesStore_def)
  have w: "writeFile goodContainer (relative examplePlatform (workdir goodContainer) q) c = None"
    for q c by (simp add: goodContainer_def)
  from g1 have f1: "getFile blankStore ''/home/project/logo.png'' = None
      \<or> getFile blankStore ''/home/project/logo.png'' = Some []" by simp
  from g2 have f2: "getFile blankStore ''/home/project/new.ts'' = None
      \<or> getFile blankStore ''/home/project/new.ts'' = Some []" by simp
  note a = saveFile_falsy_content_no_snapshot[OF f1 w w refl refl, of "''a''" "''b''"]
  note b = saveFile_falsy_content_no_snapshot[OF f2 w w refl refl, of "''a''" "''b''"]
  from a b g1 g2 m show ?thesis by simp
qed

section \<open>Properties of the visibility filter\<close>

lemma collapseExample_filtered:
  "filteredFileList collapseExample {''A''} =
     [\<lparr>kind = Folder, node_id = 0, name = ''A'', fullPath = ''A'', depth = 0\<rparr>,
      \<lparr>kind = Folder, node_id = 4, name = ''C'', fullPath = ''C'', depth = 0\<rparr>]"
  by (simp add: filteredFileList_def collapseExample_def filterStep_def MAX_SAFE_INTEGER_def
        Let_def)

text \<open>
  Claim C5, as stated, fails in its rule: a node whose depth equals the threshold is not
  dropped. In the example itself the collapsed folder \<open>A\<close> sets the threshold to 0, and
  the later node \<open>C\<close>, at depth 0, is in the result.
\<close>

theorem node_at_threshold_kept_counterexample:
  "fst (filterStep {''A''} (MAX_SAFE_INTEGER, [])
          \<lparr>kind = Folder, node_id = 0, name = ''A'', fullPath = ''A'', depth = 0\<rparr>)
     \<le> depth \<lparr>kind = Folder, node_id = 4, name = ''C'', fullPath = ''C'', depth = 0\<rparr>
   \<and> snd (filterStep {''A''}
          (0, [\<lparr>kind = Folder, node_id = 0, name = ''A'', fullPath = ''A'', depth = 0\<rparr>])
          \<lparr>kind = Folder, node_id = 4, name = ''C'', fullPath = ''C'', depth = 0\<rparr>)
     = [\<lparr>kind = Folder, node_id = 0, name = ''A'', fullPath = ''A'', depth = 0\<rparr>,
        \<lparr>kind = Folder, node_id = 4, name = ''C'', fullPath = ''C'', depth = 0\<rparr>]
   \<and> \<lparr>kind = Folder, node_id = 4, name = ''C'', fullPath = ''C'', depth = 0\<rparr>
        \<in> set (filteredFileList collapseExample {''A''})"
  by (simp add: collapseExample_filtered) (simp add: filterStep_def MAX_SAFE_INTEGER_def Let_def)

text \<open>
  Claim C5, amended. On the example list with the collapsed set \<open>{A}\<close> the filter
  returns exactly \<open>[A, C]\<close>. A collapsed folder that is not itself below the threshold
  is kept and sets the threshold to its depth; every later node at a depth strictly
  greater than the threshold is dropped and leaves it unchanged; a node at exactly the
  threshold depth is kept and clears the threshold (or sets it again when the node is a
  collapsed folder); a node at a smaller depth is kept.
\<close>

theorem filteredFileList_collapse:
  assumes "depth n \<le> MAX_SAFE_INTEGER"
  shows "filteredFileList collapseExample {''A''} =
           [\<lparr>kind = Folder, node_id = 0, name = ''A'', fullPath = ''A'', depth = 0\<rparr>,
            \<lparr>kind = Folder, node_id = 4, name = ''C'', fullPath = ''C'', depth = 0\<rparr>]
       \<and> (fullPath n \<in> collapsed \<and> depth n \<le> t \<longrightarrow>
            filterStep collapsed (t, l) n = (depth n, l @ [n]))
       \<and> (t < depth n \<longrightarrow> filterStep collapsed (t, l) n = (t, l))
       \<and> (t = depth n \<and> fullPath n \<notin> collapsed \<longrightarrow>
            filterStep collapsed (t, l) n = (MAX_SAFE_INTEGER, l @ [n]))
       \<and> (depth n < t \<and> fullPath n \<notin> collapsed \<longrightarrow>
            filterStep collapsed (t, l) n = (t, l @ [n]))"
  using assms by (auto simp: collapseExample_filtered filterStep_def Let_def min_def)

theorem filteredFileList_collapse_witness:
  "depth \<lparr>kind = Folder, node_id = 0, name = ''A'', fullPath = ''A'', depth = 0\<rparr>
      \<le> MAX_SAFE_INTEGER
   \<and> filterStep {''A''} (MAX_SAFE_INTEGER, [])
        \<lparr>kind = Folder, node_id = 0, name = ''A'', fullPath = ''A'', depth = 0\<rparr>
      = (0, [\<lparr>kind = Folder, node_id = 0, name = ''A'', fullPath = ''A'', depth = 0\<rparr>])
   \<and> filterStep {''A''} (0, [])
        \<lparr>kind = File, node_id = 1, name = ''x'', fullPath = ''A/x'', depth = 1\<rparr> = (0, [])
   \<and> filterStep {''A''} (0, [])
        \<lparr>kind = Folder, node_id = 4, name = ''C'', fullPath = ''C'', depth = 0\<rparr>
      = (MAX_SAFE_INTEGER,
         [\<lparr>kind = Folder, node_id = 4, name = ''C'', fullPath = ''C'', depth = 0\<rparr>])"
proof -
  let ?A = "\<lparr>kind = Folder, node_id = 0, name = ''A'', fullPath = ''A'', depth = 0\<rparr>"
  let ?x = "\<lparr>kind = File, node_id = 1, name = ''x'', fullPath = ''A/x'', depth = 1\<rparr>"
  let ?C = "\<lparr>kind = Folder, node_id = 4, name = ''C'', fullPath = ''C'', depth = 0\<rparr>"
  have a: "depth ?A \<le> MAX_SAFE_INTEGER" and x: "depth ?x \<le> MAX_SAFE_INTEGER"
    and c: "depth ?C \<le> MAX_SAFE_INTEGER"
    by (simp_all add: MAX_SAFE_INTEGER_def)
  from filteredFileList_collapse[OF a, of "{''A''}" MAX_SAFE_INTEGER "[]"]
  have ra: "filterStep {''A''} (MAX_SAFE_INTEGER, []) ?A = (0, [?A])" by simp
  from filteredFileList_collapse[OF x, of "{''A''}" 0 "[]"]
  have rx: "filterStep {''A''} (0, []) ?x = (0, [])" by simp
  from filteredFileList_collapse[OF c, of "{''A''}" 0 "[]"]
  have rc: "filterStep {''A''} (0, []) ?C = (MAX_SAFE_INTEGER, [?C])" by simp
  from a ra rx rc show ?thesis by simp
qed

section \<open>Properties of the node list\<close>

subsection \<open>The stable sort\<close>

lemma mset_insertBy: "mset (insertBy cmp x ys) = add_mset x (mset ys)"
  by (induction ys) simp_all

lemma set_insertBy: "set (insertBy cmp x ys) = insert x (set ys)"
  by (induction ys) auto

lemma mset_foldl_insertBy:
  "mset (foldl (\<lambda>sorted x. insertBy cmp x sorted) acc xs) = mset acc + mset xs"
  by (induction xs arbitrary: acc) (simp_all add: mset_insertBy)

lemma mset_sortBy: "mset (sortBy cmp xs) = mset xs"
  by (simp add: sortBy_def mset_foldl_insertBy)

lemma consistent_flip: "consistentComparator cmp \<Longrightarrow> \<not> cmp x y < 0 \<Longrightarrow> cmp y x \<le> 0"
  unfolding consistentComparator_def by (metis not_less)

lemma consistent_trans:
  "consistentComparator cmp \<Longrightarrow> cmp a b \<le> 0 \<Longrightarrow> cmp b c \<le> 0 \<Longrightarrow> cmp a c \<le> 0"
  unfolding consistentComparator_def by blast

lemma sorted_insertBy:
  assumes c: "consistentComparator cmp"
  shows "sorted_wrt (\<lambda>a b. cmp a b \<le> 0) ys \<Longrightarrow> sorted_wrt (\<lambda>a b. cmp a b \<le> 0) (insertBy cmp x ys)"
proof (induction ys)
  case Nil
  then show ?case by simp
next
  case (Cons y ys)
  show ?case
  proof (cases "cmp x y < 0")
    case True
    then have xy: "cmp x y \<le> 0" by simp
    have "cmp x z \<le> 0" if "z \<in> set ys" for z
      using Cons.prems that consistent_trans[OF c xy] by auto
    with True xy Cons.prems show ?thesis by auto
  next
    case False
    then have "cmp y x \<le> 0" by (rule consistent_flip[OF c])
    with False Cons show ?thesis by (auto simp: set_insertBy)
  qed
qed

lemma sorted_foldl_insertBy:
  assumes c: "consistentComparator cmp"
  shows "sorted_wrt (\<lambda>a b. cmp a b \<le> 0) acc \<Longrightarrow>
         sorted_wrt (\<lambda>a b. cmp a b \<le> 0) (foldl (\<lambda>sorted x. insertBy cmp x sorted) acc xs)"
  by (induction xs arbitrary: acc) (simp_all add: sorted_insertBy[OF c])

lemma sorted_sortBy:
  "consistentComparator cmp \<Longrightarrow> sorted_wrt (\<lambda>a b. cmp a b \<le> 0) (sortBy cmp xs)"
  by (simp add: sortBy_def sorted_foldl_insertBy)

lemma consistent_sign:
  "consistentComparator cmp \<Longrightarrow> (cmp a b < 0) = (0 < cmp b a)"
  unfolding consistentComparator_def by blast

lemma consistent_compareNodes:
  assumes c: "consistentComparator localeCompare"
  shows "consistentComparator (compareNodes localeCompare)"
  unfolding consistentComparator_def
proof (intro conjI allI impI)
  fix a b :: Node
  show "(compareNodes localeCompare a b < 0) = (0 < compareNodes localeCompare b a)"
  proof (cases "kind a = kind b")
    case True
    then show ?thesis
      using consistent_sign[OF c, of "name a" "name b"] by (simp add: compareNodes_def)
  next
    case False
    then show ?thesis by (cases "kind a"; cases "kind b") (simp_all add: compareNodes_def)
  qed
next
  fix a b d :: Node
  assume h: "compareNodes localeCompare a b \<le> 0 \<and> compareNodes localeCompare b d \<le> 0"
  show "compareNodes localeCompare a d \<le> 0"
  proof (cases "kind a = kind b \<and> kind b = kind d")
    case True
    with h have "localeCompare (name a) (name b) \<le> 0" "localeCompare (name b) (name d) \<le> 0"
      by (simp_all add: compareNodes_def)
    then have "localeCompare (name a) (name d) \<le> 0" by (rule consistent_trans[OF c])
    with True show ?thesis by (simp add: compareNodes_def)
  next
    case False
    with h show ?thesis
      by (cases "kind a"; cases "kind b"; cases "kind d")
         (simp_all add: compareNodes_def split: if_splits)
  qed
qed

lemma compareNodes_le_iff:
  "(compareNodes localeCompare a b \<le> 0) =
     ((kind a = File \<longrightarrow> kind b = File)
      \<and> (kind a = kind b \<longrightarrow> localeCompare (name a) (name b) \<le> 0))"
  by (cases "kind a"; cases "kind b") (auto simp: compareNodes_def)

lemma consistent_exampleCompare: "consistentComparator exampleCompare"
  unfolding consistentComparator_def exampleCompare_def
  by (auto simp: not_less)

subsection \<open>The filter with nothing collapsed\<close>

lemma filter_nothing_collapsed:
  "\<forall>n\<in>set ns. depth n \<le> MAX_SAFE_INTEGER \<Longrightarrow>
   foldl (filterStep {}) (MAX_SAFE_INTEGER, acc) ns = (MAX_SAFE_INTEGER, acc @ ns)"
  by (induction ns arbitrary: acc) (simp_all add: filterStep_def Let_def)

lemma filteredFileList_nothing_collapsed:
  "\<forall>n\<in>set ns. depth n \<le> MAX_SAFE_INTEGER \<Longrightarrow> filteredFileList ns {} = ns"
  by (simp add: filteredFileList_def filter_nothing_collapsed)

subsection \<open>Paths and segments\<close>

lemma joinPath_Cons: "joinPath (s # segs) = ''/'' @ s @ joinPath segs"
  by (simp add: joinPath_def)

lemma joinPath_Nil: "joinPath [] = []"
  by (simp add: joinPath_def)

lemma tl_prefixes_Cons: "tl (prefixes (x # xs)) = [x] # map ((#) x) (tl (prefixes xs))"
  by (cases xs) simp_all

lemma pathsFrom_Nil: "pathsFrom isf cur [] = []"
  by (simp add: pathsFrom_def)

lemma pathsFrom_Cons:
  "pathsFrom isf cur (nm # rest) =
     (if rest = [] \<and> isf then [] else [cur @ ''/'' @ nm]) @ pathsFrom isf (cur @ ''/'' @ nm) rest"
proof (cases rest)
  case Nil
  then show ?thesis by (simp add: pathsFrom_def joinPath_def)
next
  case (Cons r rs)
  have ne: "map (\<lambda>q. cur @ CHR ''/'' # nm @ joinPath q) (tl (prefixes rest)) \<noteq> []"
    using Cons by simp
  show ?thesis
    using Cons ne
    by (simp add: pathsFrom_def Let_def tl_prefixes_Cons[of nm] joinPath_Cons joinPath_Nil comp_def
          del: prefixes.simps)
qed

lemma pathsFrom_False_snoc:
  assumes "segments \<noteq> []"
  shows "pathsFrom False cur segments = pathsFrom True cur segments @ [cur @ joinPath segments]"
proof -
  let ?ps = "map (\<lambda>q. cur @ joinPath q) (tl (prefixes segments))"
  from assms have tne: "tl (prefixes segments) \<noteq> []" by (cases segments) simp_all
  then have ne: "?ps \<noteq> []" by simp
  have "last (tl (prefixes segments)) = segments"
    using tne last_prefixes[of segments] by (simp add: last_tl)
  then have "last ?ps = cur @ joinPath segments" using tne by (simp add: last_map)
  with ne have "?ps = butlast ?ps @ [cur @ joinPath segments]"
    using append_butlast_last_id[of ?ps] by simp
  then show ?thesis by (simp add: pathsFrom_def Let_def)
qed

lemma split_not_Nil: "split sep s \<noteq> []"
  by (induction s) (auto split: list.splits)

lemma count_segments_le:
  "length (filter (\<lambda>segment. segment \<noteq> []) (split sep s)) \<le> length s"
proof (induction s)
  case Nil
  then show ?case by simp
next
  case (Cons c cs)
  show ?case
  proof (cases "c = sep")
    case True
    with Cons show ?thesis by simp
  next
    case False
    obtain w ws where sp: "split sep cs = w # ws"
      using split_not_Nil[of sep cs] by (cases "split sep cs") auto
    with Cons False show ?thesis by (auto split: if_splits)
  qed
qed

lemma length_segmentsOf: "length (segmentsOf p) \<le> length p"
proof (cases "startsWith p ''/''")
  case True
  then show ?thesis by (simp add: segmentsOf_def Let_def count_segments_le)
next
  case False
  have "length (filter (\<lambda>segment. segment \<noteq> []) (split CHR ''/'' (''/'' @ p)))
      = length (filter (\<lambda>segment. segment \<noteq> []) (split CHR ''/'' p))" by simp
  with False show ?thesis by (simp add: segmentsOf_def Let_def count_segments_le)
qed

lemma segmentsOf_nonempty: "\<forall>s\<in>set (segmentsOf p). s \<noteq> []"
  by (simp add: segmentsOf_def Let_def)

subsection \<open>The walk over one path, and the loop over the entries\<close>

lemma rooted_step: "rooted cur \<Longrightarrow> startsWith (cur @ ''/'' @ nm) ''/''"
  by (cases cur) (auto simp: rooted_def startsWith_def)

lemma rooted_next: "rooted cur \<Longrightarrow> rooted (cur @ ''/'' @ nm)"
  by (cases cur) (auto simp: rooted_def)

lemma not_root_path: "nm \<noteq> [] \<Longrightarrow> cur @ ''/'' @ nm \<noteq> ''/''"
  by (cases cur) auto

lemma rooted_Nil: "rooted []"
  by (simp add: rooted_def)

lemma walkSegments_root_step:
  assumes "rooted cur" "nm \<noteq> []"
  shows "walkSegments ''/'' hideRoot dd dirent (nm # rest) cur d (fp, fl) =
     (if rest = [] \<and> isFileDirent dirent
      then walkSegments ''/'' hideRoot dd dirent rest (cur @ ''/'' @ nm) (d + 1)
             (fp, fl @ [\<lparr>kind = File, node_id = length fl, name = nm,
                          fullPath = cur @ ''/'' @ nm,
                          depth = d + (if hideRoot then 0 else dd)\<rparr>])
      else if cur @ ''/'' @ nm \<notin> fp
      then walkSegments ''/'' hideRoot dd dirent rest (cur @ ''/'' @ nm) (d + 1)
             (insert (cur @ ''/'' @ nm) fp,
              fl @ [\<lparr>kind = Folder, node_id = length fl, name = nm,
                      fullPath = cur @ ''/'' @ nm,
                      depth = d + (if hideRoot then 0 else dd)\<rparr>])
      else walkSegments ''/'' hideRoot dd dirent rest (cur @ ''/'' @ nm) (d + 1) (fp, fl))"
  using rooted_step[OF assms(1), of nm] not_root_path[OF assms(2), of cur]
  by (simp add: Let_def)

lemma folderPathsIn_simps:
  "folderPathsIn [] = []"
  "folderPathsIn (n # ns) = (if isFileNode n then [] else [fullPath n]) @ folderPathsIn ns"
  "folderPathsIn (xs @ ys) = folderPathsIn xs @ folderPathsIn ys"
  by (simp_all add: folderPathsIn_def)

lemma filePathsIn_simps:
  "filePathsIn [] = []"
  "filePathsIn (n # ns) = (if isFileNode n then [fullPath n] else []) @ filePathsIn ns"
  "filePathsIn (xs @ ys) = filePathsIn xs @ filePathsIn ys"
  by (simp_all add: filePathsIn_def)

lemma walkSegments_root:
  assumes "\<forall>s\<in>set rest. s \<noteq> []" and "rooted cur"
  shows "\<exists>added.
      walkSegments ''/'' hideRoot dd dirent rest cur d (fp, fl)
        = (fp \<union> set (pathsFrom (isFileDirent dirent) cur rest), fl @ added)
      \<and> filePathsIn added = (if rest \<noteq> [] \<and> isFileDirent dirent then [cur @ joinPath rest] else [])
      \<and> distinct (folderPathsIn added)
      \<and> set (folderPathsIn added) = set (pathsFrom (isFileDirent dirent) cur rest) - fp
      \<and> (\<forall>n\<in>set added. depth n < d + length rest + (if hideRoot then 0 else dd))"
  using assms
proof (induction rest arbitrary: cur d fp fl)
  case Nil
  then show ?case
    by (simp add: pathsFrom_Nil folderPathsIn_simps filePathsIn_simps)
next
  case (Cons nm rest)
  let ?isf = "isFileDirent dirent"
  let ?full = "cur @ ''/'' @ nm"
  let ?off = "(if hideRoot then 0 else dd)"
  from Cons.prems have nm: "nm \<noteq> []" and rest: "\<forall>s\<in>set rest. s \<noteq> []" by simp_all
  have r': "rooted ?full" using Cons.prems(2) by (rule rooted_next)
  note step = walkSegments_root_step[OF Cons.prems(2) nm, of hideRoot dd dirent rest d fp fl]
  show ?case
  proof (cases "rest = [] \<and> ?isf")
    case True
    let ?node = "\<lparr>kind = File, node_id = length fl, name = nm, fullPath = ?full, depth = d + ?off\<rparr>"
    from True step
    have "walkSegments ''/'' hideRoot dd dirent (nm # rest) cur d (fp, fl) = (fp, fl @ [?node])"
      by simp
    with True show ?thesis
      by (simp add: pathsFrom_Cons pathsFrom_Nil folderPathsIn_simps filePathsIn_simps
            isFileNode_def joinPath_Cons joinPath_Nil)
  next
    case False
    show ?thesis
    proof (cases "?full \<in> fp")
      case True
      from Cons.IH[OF rest r', of "d + 1" fp fl] obtain added where
        w: "walkSegments ''/'' hideRoot dd dirent rest ?full (d + 1) (fp, fl)
              = (fp \<union> set (pathsFrom ?isf ?full rest), fl @ added)"
        and f: "filePathsIn added = (if rest \<noteq> [] \<and> ?isf then [?full @ joinPath rest] else [])"
        and dis: "distinct (folderPathsIn added)"
        and st: "set (folderPathsIn added) = set (pathsFrom ?isf ?full rest) - fp"
        and dp: "\<forall>n\<in>set added. depth n < d + 1 + length rest + ?off"
        by blast
      from False True step w
      have "walkSegments ''/'' hideRoot dd dirent (nm # rest) cur d (fp, fl)
              = (fp \<union> set (pathsFrom ?isf cur (nm # rest)), fl @ added)"
        using True by (auto simp: pathsFrom_Cons)
      moreover have "filePathsIn added
          = (if nm # rest \<noteq> [] \<and> ?isf then [cur @ joinPath (nm # rest)] else [])"
        using f False by (auto simp: joinPath_Cons filePathsIn_simps)
      moreover have "set (folderPathsIn added) = set (pathsFrom ?isf cur (nm # rest)) - fp"
        using st True False by (auto simp: pathsFrom_Cons)
      moreover have "\<forall>n\<in>set added. depth n < d + length (nm # rest) + ?off"
        using dp by simp
      ultimately show ?thesis using dis by blast
    next
      case notin: False
      let ?node = "\<lparr>kind = Folder, node_id = length fl, name = nm, fullPath = ?full,
                     depth = d + ?off\<rparr>"
      from Cons.IH[OF rest r', of "d + 1" "insert ?full fp" "fl @ [?node]"] obtain added where
        w: "walkSegments ''/'' hideRoot dd dirent rest ?full (d + 1) (insert ?full fp, fl @ [?node])
              = (insert ?full fp \<union> set (pathsFrom ?isf ?full rest), (fl @ [?node]) @ added)"
        and f: "filePathsIn added = (if rest \<noteq> [] \<and> ?isf then [?full @ joinPath rest] else [])"
        and dis: "distinct (folderPathsIn added)"
        and st: "set (folderPathsIn added) = set (pathsFrom ?isf ?full rest) - insert ?full fp"
        and dp: "\<forall>n\<in>set added. depth n < d + 1 + length rest + ?off"
        by blast
      from False notin step w
      have "walkSegments ''/'' hideRoot dd dirent (nm # rest) cur d (fp, fl)
              = (fp \<union> set (pathsFrom ?isf cur (nm # rest)), fl @ (?node # added))"
        by (auto simp: pathsFrom_Cons)
      moreover have "filePathsIn (?node # added)
          = (if nm # rest \<noteq> [] \<and> ?isf then [cur @ joinPath (nm # rest)] else [])"
        using f False by (auto simp: joinPath_Cons filePathsIn_simps isFileNode_def)
      moreover have "distinct (folderPathsIn (?node # added))"
        using dis st by (auto simp: folderPathsIn_simps isFileNode_def)
      moreover have "set (folderPathsIn (?node # added))
          = set (pathsFrom ?isf cur (nm # rest)) - fp"
        using st notin False by (auto simp: pathsFrom_Cons folderPathsIn_simps isFileNode_def)
      moreover have "\<forall>n\<in>set (?node # added). depth n < d + length (nm # rest) + ?off"
        using dp by simp
      ultimately show ?thesis by blast
    qed
  qed
qed

lemma buildEntry_root_unfold:
  "buildEntry ''/'' hideRoot dd [] st e =
     (if segmentsOf (fst e) = [] then st
      else walkSegments ''/'' hideRoot dd (snd e) (segmentsOf (fst e)) [] 0 st)"
  by (simp add: buildEntry_def segmentsOf_def isHiddenFile_def Let_def)

lemma buildEntry_root:
  "\<exists>added.
      buildEntry ''/'' hideRoot dd [] (fp, fl) e = (fp \<union> set (folderPathsOf e), fl @ added)
      \<and> filePathsIn added = filePathOf e
      \<and> distinct (folderPathsIn added)
      \<and> set (folderPathsIn added) = set (folderPathsOf e) - fp
      \<and> (\<forall>n\<in>set added. depth n < length (segmentsOf (fst e)) + (if hideRoot then 0 else dd))"
proof (cases "segmentsOf (fst e) = []")
  case True
  then have "buildEntry ''/'' hideRoot dd [] (fp, fl) e = (fp \<union> set (folderPathsOf e), fl @ [])"
    by (simp add: buildEntry_root_unfold folderPathsOf_def pathsFrom_Nil)
  moreover have "filePathsIn [] = filePathOf e" using True
    by (simp add: filePathsIn_simps filePathOf_def)
  moreover have "set (folderPathsIn []) = set (folderPathsOf e) - fp" using True
    by (simp add: folderPathsIn_simps folderPathsOf_def pathsFrom_Nil)
  ultimately show ?thesis by (intro exI[of _ "[]"]) (simp add: folderPathsIn_simps)
next
  case False
  from walkSegments_root[where rest = "segmentsOf (fst e)" and cur = "[]" and hideRoot = hideRoot
      and dd = dd and dirent = "snd e" and d = 0 and fp = fp and fl = fl,
      OF segmentsOf_nonempty rooted_Nil]
  obtain added where
    w: "walkSegments ''/'' hideRoot dd (snd e) (segmentsOf (fst e)) [] 0 (fp, fl)
        = (fp \<union> set (pathsFrom (isFileDirent (snd e)) [] (segmentsOf (fst e))), fl @ added)"
    and f: "filePathsIn added = (if segmentsOf (fst e) \<noteq> [] \<and> isFileDirent (snd e)
        then [[] @ joinPath (segmentsOf (fst e))] else [])"
    and dis: "distinct (folderPathsIn added)"
    and st: "set (folderPathsIn added)
        = set (pathsFrom (isFileDirent (snd e)) [] (segmentsOf (fst e))) - fp"
    and dp: "\<forall>n\<in>set added. depth n < 0 + length (segmentsOf (fst e)) + (if hideRoot then 0 else dd)"
    by blast
  from False w have "buildEntry ''/'' hideRoot dd [] (fp, fl) e
      = (fp \<union> set (folderPathsOf e), fl @ added)"
    by (simp add: buildEntry_root_unfold folderPathsOf_def)
  moreover from f have "filePathsIn added = filePathOf e" by (simp add: filePathOf_def)
  moreover from st have "set (folderPathsIn added) = set (folderPathsOf e) - fp"
    by (simp add: folderPathsOf_def)
  moreover from dp have "\<forall>n\<in>set added.
      depth n < length (segmentsOf (fst e)) + (if hideRoot then 0 else dd)" by simp
  ultimately show ?thesis using dis by blast
qed

lemma foldl_buildEntry_root:
  "\<exists>added.
      foldl (buildEntry ''/'' hideRoot dd []) (fp, fl) es
        = (fp \<union> set (concat (map folderPathsOf es)), fl @ added)
      \<and> filePathsIn added = concat (map filePathOf es)
      \<and> distinct (folderPathsIn added)
      \<and> set (folderPathsIn added) = set (concat (map folderPathsOf es)) - fp
      \<and> (\<forall>n\<in>set added. \<exists>e\<in>set es.
            depth n < length (segmentsOf (fst e)) + (if hideRoot then 0 else dd))"
proof (induction es arbitrary: fp fl)
  case Nil
  show ?case by (intro exI[of _ "[]"]) (simp add: folderPathsIn_simps filePathsIn_simps)
next
  case (Cons e es)
  let ?off = "(if hideRoot then 0 else dd)"
  from buildEntry_root[of hideRoot dd fp fl e] obtain a1 where
    b: "buildEntry ''/'' hideRoot dd [] (fp, fl) e = (fp \<union> set (folderPathsOf e), fl @ a1)"
    and f1: "filePathsIn a1 = filePathOf e"
    and d1: "distinct (folderPathsIn a1)"
    and s1: "set (folderPathsIn a1) = set (folderPathsOf e) - fp"
    and p1: "\<forall>n\<in>set a1. depth n < length (segmentsOf (fst e)) + ?off"
    by blast
  from Cons.IH[of "fp \<union> set (folderPathsOf e)" "fl @ a1"] obtain a2 where
    w: "foldl (buildEntry ''/'' hideRoot dd []) (fp \<union> set (folderPathsOf e), fl @ a1) es
        = (fp \<union> set (folderPathsOf e) \<union> set (concat (map folderPathsOf es)), (fl @ a1) @ a2)"
    and f2: "filePathsIn a2 = concat (map filePathOf es)"
    and d2: "distinct (folderPathsIn a2)"
    and s2: "set (folderPathsIn a2)
        = set (concat (map folderPathsOf es)) - (fp \<union> set (folderPathsOf e))"
    and p2: "\<forall>n\<in>set a2. \<exists>e\<in>set es. depth n < length (segmentsOf (fst e)) + ?off"
    by blast
  have "foldl (buildEntry ''/'' hideRoot dd []) (fp, fl) (e # es)
        = (fp \<union> set (concat (map folderPathsOf (e # es))), fl @ (a1 @ a2))"
    using b w by (simp add: Un_assoc)
  moreover have "filePathsIn (a1 @ a2) = concat (map filePathOf (e # es))"
    using f1 f2 by (simp add: filePathsIn_simps)
  moreover have "distinct (folderPathsIn (a1 @ a2))"
    using d1 d2 s1 s2 by (auto simp: folderPathsIn_simps)
  moreover have "set (folderPathsIn (a1 @ a2)) = set (concat (map folderPathsOf (e # es))) - fp"
    using s1 s2 by (auto simp: folderPathsIn_simps)
  moreover have "\<forall>n\<in>set (a1 @ a2). \<exists>e'\<in>set (e # es).
      depth n < length (segmentsOf (fst e')) + ?off"
    using p1 p2 by auto
  ultimately show ?case by blast
qed

lemma buildFileList_root_raw:
  "\<exists>added.
     buildFileList localeCompare es ''/'' hideRoot []
       = sortBy (compareNodes localeCompare) ((if hideRoot then [] else [rootNode]) @ added)
     \<and> filePathsIn added = concat (map filePathOf es)
     \<and> distinct (folderPathsIn added)
     \<and> set (folderPathsIn added) = set (concat (map folderPathsOf es))
     \<and> (\<forall>n\<in>set added. \<exists>e\<in>set es. depth n \<le> length (segmentsOf (fst e)))"
proof -
  let ?dd = "if \<not> hideRoot then 1 else 0 :: nat"
  let ?fl0 = "if hideRoot then [] else [rootNode]"
  from foldl_buildEntry_root[of hideRoot ?dd "{}" ?fl0 es] obtain added where
    w: "foldl (buildEntry ''/'' hideRoot ?dd []) ({}, ?fl0) es
        = ({} \<union> set (concat (map folderPathsOf es)), ?fl0 @ added)"
    and f: "filePathsIn added = concat (map filePathOf es)"
    and d: "distinct (folderPathsIn added)"
    and s: "set (folderPathsIn added) = set (concat (map folderPathsOf es)) - {}"
    and p: "\<forall>n\<in>set added. \<exists>e\<in>set es.
        depth n < length (segmentsOf (fst e)) + (if hideRoot then 0 else ?dd)"
    by blast
  have "buildFileList localeCompare es ''/'' hideRoot []
       = sortBy (compareNodes localeCompare) (?fl0 @ added)"
    using w by (cases hideRoot) (simp_all add: buildFileList_def Let_def rootNode_def)
  moreover have "\<forall>n\<in>set added. \<exists>e\<in>set es. depth n \<le> length (segmentsOf (fst e))"
  proof
    fix n assume "n \<in> set added"
    with p obtain e where "e \<in> set es"
      "depth n < length (segmentsOf (fst e)) + (if hideRoot then 0 else ?dd)" by blast
    then show "\<exists>e\<in>set es. depth n \<le> length (segmentsOf (fst e))"
      by (intro bexI[of _ e]) (auto split: if_splits)
  qed
  ultimately show ?thesis using f d s by auto
qed

subsection \<open>The census of the nodes\<close>

lemma mset_nodeKey_split:
  "mset (map nodeKey ns)
     = mset (map (\<lambda>q. (q, File)) (filePathsIn ns)) + mset (map (\<lambda>q. (q, Folder)) (folderPathsIn ns))"
proof (induction ns)
  case Nil
  then show ?case by (simp add: filePathsIn_simps folderPathsIn_simps)
next
  case (Cons n ns)
  then show ?case
    by (cases "kind n") (simp_all add: filePathsIn_simps folderPathsIn_simps isFileNode_def nodeKey_def)
qed

lemma mset_eq_of_distinct:
  "distinct xs \<Longrightarrow> distinct ys \<Longrightarrow> set xs = set ys \<Longrightarrow> mset xs = mset ys"
  using set_eq_iff_mset_eq_distinct by blast

lemma closedTree_entry:
  assumes "closedTree es" "e \<in> set es"
  shows "segmentsOf (fst e) \<noteq> []" "joinPath (segmentsOf (fst e)) = fst e"
    "\<And>q. q \<in> set (pathsFrom True [] (segmentsOf (fst e)))
        \<Longrightarrow> \<exists>parent\<in>set es. fst parent = q \<and> \<not> isFileDirent (snd parent)"
  using assms by (auto simp: closedTree_def list_all_iff list_ex_iff)

lemma closedTree_files:
  assumes "\<forall>e\<in>set es. segmentsOf (fst e) \<noteq> [] \<and> joinPath (segmentsOf (fst e)) = fst e"
  shows "concat (map filePathOf es) = map fst (filter (\<lambda>e. isFileDirent (snd e)) es)"
  using assms by (induction es) (simp_all add: filePathOf_def)

lemma closedTree_folders:
  assumes c: "closedTree es"
  shows "set (concat (map folderPathsOf es))
           = set (map fst (filter (\<lambda>e. \<not> isFileDirent (snd e)) es))"
proof (intro set_eqI iffI)
  fix q assume "q \<in> set (concat (map folderPathsOf es))"
  then obtain e where e: "e \<in> set es" and q: "q \<in> set (folderPathsOf e)" by auto
  note ce = closedTree_entry[OF c e]
  show "q \<in> set (map fst (filter (\<lambda>e. \<not> isFileDirent (snd e)) es))"
  proof (cases "isFileDirent (snd e)")
    case True
    with q have "q \<in> set (pathsFrom True [] (segmentsOf (fst e)))"
      by (simp add: folderPathsOf_def)
    from ce(3)[OF this] show ?thesis by force
  next
    case False
    with q have "q \<in> set (pathsFrom True [] (segmentsOf (fst e))) \<or> q = fst e"
      using pathsFrom_False_snoc[OF ce(1), of "[]"] ce(2) by (auto simp: folderPathsOf_def)
    then show ?thesis
    proof
      assume "q \<in> set (pathsFrom True [] (segmentsOf (fst e)))"
      from ce(3)[OF this] show ?thesis by force
    next
      assume "q = fst e"
      with e False show ?thesis by force
    qed
  qed
next
  fix q assume "q \<in> set (map fst (filter (\<lambda>e. \<not> isFileDirent (snd e)) es))"
  then obtain e where e: "e \<in> set es" and nf: "\<not> isFileDirent (snd e)" and q: "q = fst e"
    by auto
  note ce = closedTree_entry[OF c e]
  have "fst e \<in> set (folderPathsOf e)"
    using pathsFrom_False_snoc[OF ce(1), of "[]"] ce(2) nf by (simp add: folderPathsOf_def)
  with e q show "q \<in> set (concat (map folderPathsOf es))" by auto
qed

lemma mset_entryKey_split:
  "mset (map entryKey es)
     = mset (map (\<lambda>q. (q, File)) (map fst (filter (\<lambda>e. isFileDirent (snd e)) es)))
       + mset (map (\<lambda>q. (q, Folder)) (map fst (filter (\<lambda>e. \<not> isFileDirent (snd e)) es)))"
  by (induction es) (simp_all add: entryKey_def)

lemma closedTree_census:
  assumes c: "closedTree es"
  shows "mset (map (\<lambda>q. (q, File)) (concat (map filePathOf es)))
           + mset (map (\<lambda>q. (q, Folder)) (remdups (concat (map folderPathsOf es))))
         = mset (map entryKey es)"
proof -
  have can: "\<forall>e\<in>set es. segmentsOf (fst e) \<noteq> [] \<and> joinPath (segmentsOf (fst e)) = fst e"
    using closedTree_entry(1,2)[OF c] by blast
  have d: "distinct (map fst (filter (\<lambda>e. \<not> isFileDirent (snd e)) es))"
    using c by (simp add: closedTree_def distinct_map_filter)
  have "set (remdups (concat (map folderPathsOf es)))
      = set (map fst (filter (\<lambda>e. \<not> isFileDirent (snd e)) es))"
    using closedTree_folders[OF c] by simp
  with distinct_remdups d have "mset (remdups (concat (map folderPathsOf es)))
      = mset (map fst (filter (\<lambda>e. \<not> isFileDirent (snd e)) es))"
    by (rule mset_eq_of_distinct)
  then have "mset (map (\<lambda>q. (q, Folder)) (remdups (concat (map folderPathsOf es))))
      = mset (map (\<lambda>q. (q, Folder)) (map fst (filter (\<lambda>e. \<not> isFileDirent (snd e)) es)))"
    by (metis mset_map)
  then show ?thesis
    by (simp add: closedTree_files[OF can] mset_entryKey_split del: mset_map)
qed

lemma buildFileList_root_census:
  "mset (map nodeKey (buildFileList localeCompare es ''/'' hideRoot []))
     = mset (map nodeKey (if hideRoot then [] else [rootNode]))
       + mset (map (\<lambda>q. (q, File)) (concat (map filePathOf es)))
       + mset (map (\<lambda>q. (q, Folder)) (remdups (concat (map folderPathsOf es))))"
proof -
  from buildFileList_root_raw[of localeCompare es hideRoot] obtain added where
    b: "buildFileList localeCompare es ''/'' hideRoot []
       = sortBy (compareNodes localeCompare) ((if hideRoot then [] else [rootNode]) @ added)"
    and f: "filePathsIn added = concat (map filePathOf es)"
    and d: "distinct (folderPathsIn added)"
    and s: "set (folderPathsIn added) = set (concat (map folderPathsOf es))"
    by blast
  have "set (folderPathsIn added) = set (remdups (concat (map folderPathsOf es)))"
    using s by simp
  with d distinct_remdups
  have "mset (folderPathsIn added) = mset (remdups (concat (map folderPathsOf es)))"
    by (rule mset_eq_of_distinct)
  then have fo: "mset (map (\<lambda>q. (q, Folder)) (folderPathsIn added))
      = mset (map (\<lambda>q. (q, Folder)) (remdups (concat (map folderPathsOf es))))"
    by (metis mset_map)
  have "mset (map nodeKey (buildFileList localeCompare es ''/'' hideRoot []))
      = image_mset nodeKey (mset ((if hideRoot then [] else [rootNode]) @ added))"
    unfolding b by (simp add: mset_sortBy)
  also have "\<dots> = mset (map nodeKey (if hideRoot then [] else [rootNode]))
      + mset (map nodeKey added)" by simp
  also have "mset (map nodeKey added)
      = mset (map (\<lambda>q. (q, File)) (concat (map filePathOf es)))
        + mset (map (\<lambda>q. (q, Folder)) (remdups (concat (map folderPathsOf es))))"
    unfolding mset_nodeKey_split f fo ..
  finally show ?thesis by (simp add: add.assoc)
qed

lemma buildFileList_root_depths:
  assumes "\<forall>e\<in>set es. length (fst e) < MAX_SAFE_INTEGER"
  shows "\<forall>n\<in>set (buildFileList localeCompare es ''/'' hideRoot []). depth n \<le> MAX_SAFE_INTEGER"
proof -
  from buildFileList_root_raw[of localeCompare es hideRoot] obtain added where
    b: "buildFileList localeCompare es ''/'' hideRoot []
       = sortBy (compareNodes localeCompare) ((if hideRoot then [] else [rootNode]) @ added)"
    and p: "\<forall>n\<in>set added. \<exists>e\<in>set es. depth n \<le> length (segmentsOf (fst e))"
    by blast
  have "depth n \<le> MAX_SAFE_INTEGER" if "n \<in> set added" for n
  proof -
    from p that obtain e where "e \<in> set es" "depth n \<le> length (segmentsOf (fst e))" by blast
    with assms length_segmentsOf[of "fst e"] show ?thesis by fastforce
  qed
  moreover have "set (buildFileList localeCompare es ''/'' hideRoot [])
      = set ((if hideRoot then [] else [rootNode]) @ added)"
    unfolding b using mset_sortBy[of "compareNodes localeCompare"] by (metis set_mset_mset)
  ultimately show ?thesis by (auto simp: rootNode_def)
qed

lemma buildFileList_sorted:
  assumes "consistentComparator localeCompare"
  shows "sorted_wrt (\<lambda>a b. (kind a = File \<longrightarrow> kind b = File)
            \<and> (kind a = kind b \<longrightarrow> localeCompare (name a) (name b) \<le> 0))
           (buildFileList localeCompare es rootFolder hideRoot hiddenFiles)"
  using sorted_sortBy[OF consistent_compareNodes[OF assms]]
  by (simp add: buildFileList_def Let_def compareNodes_le_iff)

lemma orphanExample_build:
  "buildFileList exampleCompare [(''/src/a.ts'', fileEntryOf ''hi'')] ''/'' False [] =
     [\<lparr>kind = Folder, node_id = 0, name = ''/'', fullPath = ''/'', depth = 0\<rparr>,
      \<lparr>kind = Folder, node_id = 1, name = ''src'', fullPath = ''/src'', depth = 1\<rparr>,
      \<lparr>kind = File, node_id = 2, name = ''a.ts'', fullPath = ''/src/a.ts'', depth = 2\<rparr>]"
  by code_simp

lemma exampleEntries_closed: "closedTree exampleEntries"
  by code_simp

text \<open>
  Claim C4, as stated, fails: the node list does not hold exactly one node per map entry.
  The builder emits a folder node for every ancestor of a path, whether or not the
  ancestor is a key of the map: the map with the single entry \<open>/src/a.ts\<close> gives the
  root, the folder \<open>/src\<close> and the file \<open>/src/a.ts\<close>.
\<close>

theorem ancestor_nodes_counterexample:
  "length [(''/src/a.ts'', fileEntryOf ''hi'')] = 1
   \<and> filteredFileList
        (buildFileList exampleCompare [(''/src/a.ts'', fileEntryOf ''hi'')] ''/'' False []) {} =
     [\<lparr>kind = Folder, node_id = 0, name = ''/'', fullPath = ''/'', depth = 0\<rparr>,
      \<lparr>kind = Folder, node_id = 1, name = ''src'', fullPath = ''/src'', depth = 1\<rparr>,
      \<lparr>kind = File, node_id = 2, name = ''a.ts'', fullPath = ''/src/a.ts'', depth = 2\<rparr>]"
  by (simp add: orphanExample_build filteredFileList_def filterStep_def MAX_SAFE_INTEGER_def
        Let_def)

text \<open>
  Claim C4, amended. For the entries of any map, with a consistent \<open>localeCompare\<close> and
  keys shorter than the largest safe integer: building the node list with root folder
  \<open>/\<close> and no hidden patterns and filtering it with nothing collapsed returns the built
  list unchanged. It holds the synthetic root when the root is not hidden, one file node
  per file entry whose path has a segment, and one folder node per distinct folder path
  (an ancestor of a key, or a key whose entry is not a file). When the map is a closed
  tree this is exactly one node per map entry, with the entry's path and kind, plus the
  root. All folder nodes come before all file nodes, and nodes of the same kind are in
  the order of \<open>localeCompare\<close> on their names.
\<close>

theorem buildFileList_round_trip:
  assumes lc: "consistentComparator localeCompare"
    and len: "\<forall>e\<in>set entries. length (fst e) < MAX_SAFE_INTEGER"
    and nodes: "nodes = filteredFileList (buildFileList localeCompare entries ''/'' hideRoot []) {}"
  shows "nodes = buildFileList localeCompare entries ''/'' hideRoot []
       \<and> mset (map nodeKey nodes)
           = mset (map nodeKey (if hideRoot then [] else [rootNode]))
             + mset (map (\<lambda>q. (q, File)) (concat (map filePathOf entries)))
             + mset (map (\<lambda>q. (q, Folder)) (remdups (concat (map folderPathsOf entries))))
       \<and> (closedTree entries \<longrightarrow>
            mset (map nodeKey nodes)
              = mset (map nodeKey (if hideRoot then [] else [rootNode]))
                + mset (map entryKey entries))
       \<and> sorted_wrt (\<lambda>a b. (kind a = File \<longrightarrow> kind b = File)
              \<and> (kind a = kind b \<longrightarrow> localeCompare (name a) (name b) \<le> 0)) nodes"
proof -
  let ?built = "buildFileList localeCompare entries ''/'' hideRoot []"
  have same: "nodes = ?built"
    unfolding nodes
    by (rule filteredFileList_nothing_collapsed) (rule buildFileList_root_depths[OF len])
  have census: "mset (map nodeKey ?built)
           = mset (map nodeKey (if hideRoot then [] else [rootNode]))
             + mset (map (\<lambda>q. (q, File)) (concat (map filePathOf entries)))
             + mset (map (\<lambda>q. (q, Folder)) (remdups (concat (map folderPathsOf entries))))"
    by (rule buildFileList_root_census)
  have closed: "mset (map nodeKey ?built)
              = mset (map nodeKey (if hideRoot then [] else [rootNode]))
                + mset (map entryKey entries)" if "closedTree entries"
    unfolding census using closedTree_census[OF that] by (simp only: add.assoc)
  have srt: "sorted_wrt (\<lambda>a b. (kind a = File \<longrightarrow> kind b = File)
              \<and> (kind a = kind b \<longrightarrow> localeCompare (name a) (name b) \<le> 0)) ?built"
    by (rule buildFileList_sorted[OF lc])
  from same census closed srt show ?thesis by simp
qed

theorem buildFileList_round_trip_witness:
  "consistentComparator exampleCompare
   \<and> closedTree exampleEntries
   \<and> filteredFileList (buildFileList exampleCompare exampleEntries ''/'' False []) {}
       = buildFileList exampleCompare exampleEntries ''/'' False []
   \<and> mset (map nodeKey
        (filteredFileList (buildFileList exampleCompare exampleEntries ''/'' False []) {}))
       = mset (map nodeKey [rootNode]) + mset (map entryKey exampleEntries)"
proof -
  have len: "\<forall>e\<in>set exampleEntries. length (fst e) < MAX_SAFE_INTEGER"
    by (simp add: exampleEntries_def MAX_SAFE_INTEGER_def)
  note rt = buildFileList_round_trip[OF consistent_exampleCompare len refl, of False]
  from rt have same: "filteredFileList (buildFileList exampleCompare exampleEntries ''/'' False []) {}
       = buildFileList exampleCompare exampleEntries ''/'' False []" by blast
  from rt exampleEntries_closed have "mset (map nodeKey
        (filteredFileList (buildFileList exampleCompare exampleEntries ''/'' False []) {}))
       = mset (map nodeKey (if False then [] else [rootNode])) + mset (map entryKey exampleEntries)"
    by blast
  then have "mset (map nodeKey
        (filteredFileList (buildFileList exampleCompare exampleEntries ''/'' False []) {}))
       = mset (map nodeKey [rootNode]) + mset (map entryKey exampleEntries)"
    by (simp only: if_False)
  with same consistent_exampleCompare exampleEntries_closed show ?thesis by blast
qed

end
